theory Spec2Isabelle
  imports Complex_Main "HOL-Library.AList" "HOL-Library.Log_Nat"
begin

section \<open>Capability detector (script.js, CONFIG.mobile and utils.isLowEndDevice)\<close>

text \<open>
  A JavaScript number as far as the detector needs it: the relational operators convert
  their operands with ToNumber, \<^verbatim>\<open>undefined\<close> converts to NaN, and every
  comparison with NaN is false.
\<close>

datatype jsnum = NaN | Num int

text \<open>\<^verbatim>\<open>navigator.hardwareConcurrency\<close>: a core count, or \<^verbatim>\<open>undefined\<close>
  (\<open>None\<close>) on a host without the API.\<close>

fun ToNumber :: "nat option \<Rightarrow> jsnum" where
  "ToNumber None = NaN"
| "ToNumber (Some n) = Num (int n)"

fun js_le :: "jsnum \<Rightarrow> jsnum \<Rightarrow> bool" where
  "js_le (Num a) (Num b) = (a \<le> b)"
| "js_le _ _ = False"

record environment =
  hardwareConcurrency :: "nat option"
  prefersReducedMotion :: bool
  hasIntersectionObserver :: bool
  innerWidth :: int

record mobile_config =
  breakpoint :: int
  reducedMotion :: bool
  isLowEnd :: bool

definition CONFIG_mobile :: "environment \<Rightarrow> mobile_config" where
  "CONFIG_mobile env =
     \<lparr> breakpoint = 768,
       reducedMotion = prefersReducedMotion env,
       isLowEnd = js_le (ToNumber (hardwareConcurrency env)) (Num 4) \<rparr>"

definition isLowEndDevice :: "mobile_config \<Rightarrow> bool" where
  "isLowEndDevice m = (isLowEnd m \<or> reducedMotion m)"

definition isMobile :: "environment \<Rightarrow> bool" where
  "isMobile env = (innerWidth env \<le> breakpoint (CONFIG_mobile env))"

text \<open>The three branches of \<^verbatim>\<open>init\<close> that attach the section animations.\<close>

datatype strategy = SimpleAnimations | IntersectionObserverAnimations | ScrollTriggerAnimations

definition init_strategy :: "environment \<Rightarrow> strategy" where
  "init_strategy env =
     (if isLowEndDevice (CONFIG_mobile env) then SimpleAnimations
      else if hasIntersectionObserver env then IntersectionObserverAnimations
      else ScrollTriggerAnimations)"

section \<open>Scheduling primitives (script.js and jamboree.js, utils)\<close>

subsection \<open>rafThrottle\<close>

text \<open>
  The closure of one wrapped function holds \<^verbatim>\<open>requestId\<close> and
  \<^verbatim>\<open>lastTime\<close>. The host's list of frame callbacks that were requested
  and have not run yet is \<open>rafQueue\<close>; each entry carries the handle that
  \<^verbatim>\<open>requestAnimationFrame\<close> returned and the \<^verbatim>\<open>args\<close> its arrow
  function captured. \<open>executed\<close> is instrumentation only: the timestamp and the
  arguments of every run of \<^verbatim>\<open>callback\<close>, in order. Timestamps are in
  milliseconds, the values of the doubles the host passes.
\<close>

record 'a throttle =
  requestId :: "nat option"
  lastTime :: rat
  rafQueue :: "(nat \<times> 'a) list"
  nextHandle :: nat
  executed :: "(rat \<times> 'a) list"

definition rafThrottle :: "'a throttle" where
  "rafThrottle =
     \<lparr> requestId = None, lastTime = 0, rafQueue = [], nextHandle = 1, executed = [] \<rparr>"

text \<open>
  Double arithmetic, as far as the throttle needs it. A JavaScript number is an IEEE 754
  double, and \<^verbatim>\<open>1000 / fps\<close> and \<^verbatim>\<open>currentTime - lastTime\<close> are each the
  exact result rounded to the nearest double, a tie going to the even significand.
  \<open>rne\<close> rounds a rational to the nearest integer, ties to even; \<open>expo x\<close> is the
  binary exponent of a positive \<open>x\<close>, the \<open>e\<close> with \<open>2 powi e \<le> x < 2 powi (e + 1)\<close>,
  found from the bit lengths of numerator and denominator;
  \<open>fl\<close> rounds to 53 significant bits. The exponent range is left unbounded, which
  changes nothing here: a frame rate of at least 1 gives a quotient in the normal range,
  and a difference of two doubles that is too small for the normal range is exact.
  Timestamps, and the frame rate, are numbers that a double holds.
\<close>

definition rne :: "rat \<Rightarrow> int" where
  "rne q = (let n = \<lfloor>q\<rfloor>; r = q - of_int n
            in if r < 1 / 2 then n else if 1 / 2 < r then n + 1
               else if even n then n else n + 1)"

definition expo :: "rat \<Rightarrow> int" where
  "expo x = (case quotient_of x of (p, q) \<Rightarrow>
               let d = bitlen p - bitlen q
               in if 2 powi d \<le> x then d else d - 1)"

definition fl :: "rat \<Rightarrow> rat" where
  "fl x = (if x = 0 then 0
           else let u = 2 powi (expo \<bar>x\<bar> - 52)
                in sgn x * of_int (rne (\<bar>x\<bar> / u)) * u)"

text \<open>
  \<^verbatim>\<open>currentTime - lastTime >= interval\<close> with \<^verbatim>\<open>interval = 1000 / fps\<close>, both
  sides as the doubles the code compares. For \<^verbatim>\<open>fps = 0\<close> the interval is
  \<^verbatim>\<open>Infinity\<close>, which no difference of timestamps reaches; the test is written out
  because \<open>x / 0 = 0\<close> in HOL.
\<close>

definition frame_due :: "nat \<Rightarrow> rat \<Rightarrow> rat \<Rightarrow> bool" where
  "frame_due fps currentTime lastT =
     (fps \<noteq> 0 \<and> fl (currentTime - lastT) \<ge> fl (1000 / of_nat fps))"

text \<open>The wrapped function: \<^verbatim>\<open>(...args) => { if (requestId === null) ... }\<close>.\<close>

definition throttled :: "'a \<Rightarrow> 'a throttle \<Rightarrow> 'a throttle" where
  "throttled args th =
     (if requestId th = None
      then th\<lparr> requestId := Some (nextHandle th),
               rafQueue := rafQueue th @ [(nextHandle th, args)],
               nextHandle := Suc (nextHandle th) \<rparr>
      else th)"

text \<open>The frame callback of script.js; \<open>s\<close> is whatever state \<^verbatim>\<open>callback\<close> acts on.\<close>

definition raf_callback ::
  "nat \<Rightarrow> ('a \<Rightarrow> 's \<Rightarrow> 's) \<Rightarrow> rat \<Rightarrow> 'a \<Rightarrow> 'a throttle \<times> 's \<Rightarrow> 'a throttle \<times> 's" where
  "raf_callback fps callback currentTime args st =
     (case st of (th, s) \<Rightarrow>
        if frame_due fps currentTime (lastTime th)
        then (th\<lparr> lastTime := currentTime,
                  executed := executed th @ [(currentTime, args)],
                  requestId := None \<rparr>,
              callback args s)
        else (th\<lparr> requestId := None \<rparr>, s))"

text \<open>The frame callback of jamboree.js: no frame-rate limiter.\<close>

definition raf_callback_jamboree ::
  "('a \<Rightarrow> 's \<Rightarrow> 's) \<Rightarrow> rat \<Rightarrow> 'a \<Rightarrow> 'a throttle \<times> 's \<Rightarrow> 'a throttle \<times> 's" where
  "raf_callback_jamboree callback currentTime args st =
     (case st of (th, s) \<Rightarrow>
        (th\<lparr> executed := executed th @ [(currentTime, args)], requestId := None \<rparr>,
         callback args s))"

text \<open>One paint of the host: every queued frame callback runs once, with the frame's
  timestamp, in the order of the requests.\<close>

definition animation_frame ::
  "nat \<Rightarrow> ('a \<Rightarrow> 's \<Rightarrow> 's) \<Rightarrow> rat \<Rightarrow> 'a throttle \<times> 's \<Rightarrow> 'a throttle \<times> 's" where
  "animation_frame fps callback t st =
     (case st of (th, s) \<Rightarrow>
        fold (\<lambda>(h, args). raf_callback fps callback t args) (rafQueue th)
          (th\<lparr> rafQueue := [] \<rparr>, s))"

definition animation_frame_jamboree ::
  "('a \<Rightarrow> 's \<Rightarrow> 's) \<Rightarrow> rat \<Rightarrow> 'a throttle \<times> 's \<Rightarrow> 'a throttle \<times> 's" where
  "animation_frame_jamboree callback t st =
     (case st of (th, s) \<Rightarrow>
        fold (\<lambda>(h, args). raf_callback_jamboree callback t args) (rafQueue th)
          (th\<lparr> rafQueue := [] \<rparr>, s))"

text \<open>What can happen to a wrapped function: it is invoked, or the host paints.\<close>

datatype 'a throttle_event = Invoke 'a | Frame rat

fun throttle_step ::
  "nat \<Rightarrow> ('a \<Rightarrow> 's \<Rightarrow> 's) \<Rightarrow> 'a throttle_event \<Rightarrow> 'a throttle \<times> 's \<Rightarrow> 'a throttle \<times> 's" where
  "throttle_step fps callback (Invoke args) st = (throttled args (fst st), snd st)"
| "throttle_step fps callback (Frame t) st = animation_frame fps callback t st"

definition throttle_run ::
  "nat \<Rightarrow> ('a \<Rightarrow> 's \<Rightarrow> 's) \<Rightarrow> 'a throttle_event list \<Rightarrow> 'a throttle \<times> 's \<Rightarrow> 'a throttle \<times> 's" where
  "throttle_run fps callback evs st = fold (throttle_step fps callback) evs st"

fun throttle_step_jamboree ::
  "('a \<Rightarrow> 's \<Rightarrow> 's) \<Rightarrow> 'a throttle_event \<Rightarrow> 'a throttle \<times> 's \<Rightarrow> 'a throttle \<times> 's" where
  "throttle_step_jamboree callback (Invoke args) st = (throttled args (fst st), snd st)"
| "throttle_step_jamboree callback (Frame t) st = animation_frame_jamboree callback t st"

definition throttle_run_jamboree ::
  "('a \<Rightarrow> 's \<Rightarrow> 's) \<Rightarrow> 'a throttle_event list \<Rightarrow> 'a throttle \<times> 's \<Rightarrow> 'a throttle \<times> 's" where
  "throttle_run_jamboree callback evs st = fold (throttle_step_jamboree callback) evs st"

text \<open>A callback that records the arguments it was run with.\<close>

definition record_call :: "'a \<Rightarrow> 'a list \<Rightarrow> 'a list" where
  "record_call args calls = calls @ [args]"

text \<open>Successive entries of an execution log are at least \<open>d\<close> apart, the difference
  taken as the code takes it, in double arithmetic.\<close>

fun spaced :: "rat \<Rightarrow> rat list \<Rightarrow> bool" where
  "spaced d (t1 # t2 # ts) = (fl (t2 - t1) \<ge> d \<and> spaced d (t2 # ts))"
| "spaced d _ = True"

subsection \<open>processBatch\<close>

text \<open>
  \<^verbatim>\<open>Array.prototype.slice(start, end)\<close> on integers (\<open>fin\<close> is the source's
  \<^verbatim>\<open>end\<close>): a negative index counts from the end, both are clamped to the array,
  and an empty range gives the empty array.
\<close>

definition js_slice :: "'a list \<Rightarrow> int \<Rightarrow> int \<Rightarrow> 'a list" where
  "js_slice xs start fin =
     (let n = int (length xs);
          k = (if start < 0 then max (n + start) 0 else min start n);
          f = (if fin < 0 then max (n + fin) 0 else min fin n)
      in take (nat (f - k)) (drop (nat k) xs))"

text \<open>
  \<open>index\<close> is the closure variable; \<open>slices\<close> logs the batch that each run of
  \<^verbatim>\<open>processNext\<close> handed to \<^verbatim>\<open>batch.forEach(processor)\<close>, so the items
  visited so far are \<open>concat slices\<close>; \<open>scheduled\<close> says that
  \<^verbatim>\<open>requestAnimationFrame(processNext)\<close> is pending.
\<close>

record 'a batch_state =
  index :: int
  slices :: "'a list list"
  scheduled :: bool

definition processNext :: "'a list \<Rightarrow> int \<Rightarrow> 'a batch_state \<Rightarrow> 'a batch_state" where
  "processNext items batchSize st =
     (let batch = js_slice items (index st) (index st + batchSize)
      in \<lparr> index = index st + batchSize,
           slices = slices st @ [batch],
           scheduled = (index st + batchSize < int (length items)) \<rparr>)"

definition processBatch :: "'a list \<Rightarrow> int \<Rightarrow> 'a batch_state" where
  "processBatch items batchSize =
     (let st = \<lparr> index = 0, slices = [], scheduled = False \<rparr>
      in if length items > 0 then processNext items batchSize st else st)"

text \<open>One paint of the host: the pending \<^verbatim>\<open>processNext\<close>, if any, runs.\<close>

definition batch_frame :: "'a list \<Rightarrow> int \<Rightarrow> 'a batch_state \<Rightarrow> 'a batch_state" where
  "batch_frame items batchSize st =
     (if scheduled st then processNext items batchSize st else st)"

definition batch_after :: "nat \<Rightarrow> 'a list \<Rightarrow> int \<Rightarrow> 'a batch_state" where
  "batch_after n items batchSize =
     ((batch_frame items batchSize) ^^ n) (processBatch items batchSize)"

text \<open>The specification's words, "fixed-size slices, the last possibly smaller":
  the input cut into consecutive pieces of \<open>b\<close> items.\<close>

definition fixed_size_slices :: "nat \<Rightarrow> 'a list \<Rightarrow> 'a list list" where
  "fixed_size_slices b xs =
     map (\<lambda>j. take b (drop (j * b) xs)) [0 ..< (length xs + b - 1) div b]"

section \<open>Expandable navigation menu (script.js and jamboree.js, initMenu)\<close>

datatype tween_kind = TlSet | TlTo | TlFromTo

text \<open>A step of the menu's timeline: the method called, its target and its position
  parameter (empty when the call gives none).\<close>

datatype tween = Tween tween_kind string string

text \<open>What \<^verbatim>\<open>initMenu\<close> finds in the page.\<close>

record menu_elements =
  hasMenuButton :: bool
  fadeTargetsLength :: nat
  initialDataNav :: "string option"
  initialIsOpened :: bool

record menu =
  isOpen :: bool
  dataNav :: "string option"
  buttonIsOpened :: bool
  ariaLabel :: "string option"
  tl :: "tween list"

definition initMenu :: "menu_elements \<Rightarrow> menu" where
  "initMenu els =
     \<lparr> isOpen = False,
       dataNav = initialDataNav els,
       buttonIsOpened = initialIsOpened els,
       ariaLabel = (if hasMenuButton els then Some ''Open menu'' else None),
       tl = [] \<rparr>"

definition open_steps :: "menu_elements \<Rightarrow> tween list" where
  "open_steps els =
     [Tween TlSet ''navWrap'' [], Tween TlSet ''menu'' ''<'']
     @ (if hasMenuButton els
        then [Tween TlFromTo ''menuButton.texts'' [], Tween TlFromTo ''menuButton.icon'' ''<'']
        else [])
     @ [Tween TlFromTo ''overlay'' ''<'', Tween TlFromTo ''bgPanels'' ''<'',
        Tween TlFromTo ''menuLinks'' ''<+=0.35'']
     @ (if fadeTargetsLength els \<noteq> 0 then [Tween TlFromTo ''fadeTargets'' ''<+=0.2''] else [])"

definition close_steps :: "menu_elements \<Rightarrow> tween list" where
  "close_steps els =
     [Tween TlTo ''overlay'' [], Tween TlTo ''menu'' ''<'']
     @ (if hasMenuButton els
        then [Tween TlTo ''menuButton.texts'' ''<'', Tween TlTo ''menuButton.icon'' ''<'']
        else [])
     @ [Tween TlSet ''navWrap'' [] ]"

text \<open>\<^verbatim>\<open>tl.clear()\<close> empties the one shared timeline; the steps that follow are
  all it then holds.\<close>

definition openNav :: "menu_elements \<Rightarrow> menu \<Rightarrow> menu" where
  "openNav els m =
     (if isOpen m then m
      else m\<lparr> isOpen := True,
              dataNav := Some ''open'',
              buttonIsOpened := (if hasMenuButton els then True else buttonIsOpened m),
              ariaLabel := (if hasMenuButton els then Some ''Close menu'' else ariaLabel m),
              tl := open_steps els \<rparr>)"

definition closeNav :: "menu_elements \<Rightarrow> menu \<Rightarrow> menu" where
  "closeNav els m =
     (if \<not> isOpen m then m
      else m\<lparr> isOpen := False,
              dataNav := Some ''closed'',
              buttonIsOpened := (if hasMenuButton els then False else buttonIsOpened m),
              ariaLabel := (if hasMenuButton els then Some ''Open menu'' else ariaLabel m),
              tl := close_steps els \<rparr>)"

text \<open>The function handed to \<^verbatim>\<open>rafThrottle\<close>; it ignores the click event.\<close>

definition toggle :: "menu_elements \<Rightarrow> unit \<Rightarrow> menu \<Rightarrow> menu" where
  "toggle els ev m = (if isOpen m then closeNav els m else openNav els m)"

datatype menu_event = Click | AnimationFrame rat | Keydown string

text \<open>script.js: \<^verbatim>\<open>toggleMenu = utils.rafThrottle(..., 30)\<close>.\<close>

fun menu_step :: "menu_elements \<Rightarrow> menu_event \<Rightarrow> unit throttle \<times> menu \<Rightarrow> unit throttle \<times> menu" where
  "menu_step els Click st = (throttled () (fst st), snd st)"
| "menu_step els (AnimationFrame t) st = animation_frame 30 (toggle els) t st"
| "menu_step els (Keydown key) st =
     (if key = ''Escape'' \<and> isOpen (snd st) then (fst st, closeNav els (snd st)) else st)"

text \<open>jamboree.js: \<^verbatim>\<open>toggleMenu = utils.rafThrottle(...)\<close>, no limiter.\<close>

fun menu_step_jamboree ::
  "menu_elements \<Rightarrow> menu_event \<Rightarrow> unit throttle \<times> menu \<Rightarrow> unit throttle \<times> menu" where
  "menu_step_jamboree els Click st = (throttled () (fst st), snd st)"
| "menu_step_jamboree els (AnimationFrame t) st = animation_frame_jamboree (toggle els) t st"
| "menu_step_jamboree els (Keydown key) st =
     (if key = ''Escape'' \<and> isOpen (snd st) then (fst st, closeNav els (snd st)) else st)"

definition menu_run :: "menu_elements \<Rightarrow> menu_event list \<Rightarrow> unit throttle \<times> menu" where
  "menu_run els evs = fold (menu_step els) evs (rafThrottle, initMenu els)"

definition menu_run_jamboree :: "menu_elements \<Rightarrow> menu_event list \<Rightarrow> unit throttle \<times> menu" where
  "menu_run_jamboree els evs = fold (menu_step_jamboree els) evs (rafThrottle, initMenu els)"

section \<open>Timelines and the text-reveal helpers (animationHelpers)\<close>

text \<open>A DOM element is known by its identity only.\<close>

type_synonym element = nat

datatype js_error = TypeError string

text \<open>What a tween is aimed at: one element, a collection of elements, or
  \<^verbatim>\<open>undefined\<close> (a fragment list that the split did not produce).\<close>

datatype targets = One element | Many "element list" | UndefinedTargets

datatype var_value = NumV rat | StrV string

text \<open>\<^verbatim>\<open>timeline.from(targets, vars, position)\<close>; a nested object such as
  \<^verbatim>\<open>stagger: { amount: 0.3, from: "start" }\<close> is written with dotted keys.\<close>

datatype anim_step = From targets "(string \<times> var_value) list" rat

text \<open>The result of \<^verbatim>\<open>SplitText.create\<close>: each fragment list is present or
  \<^verbatim>\<open>undefined\<close>, depending on the type asked for.\<close>

record split_result =
  chars :: "element list option"
  words :: "element list option"
  lines :: "element list option"
  masks :: "element list option"

text \<open>\<^verbatim>\<open>SplitText.create(targets, { type, mask })\<close> belongs to the animation library
  and is a parameter of the helpers: targets, type and mask give the fragments.\<close>

type_synonym split_text = "element list \<Rightarrow> string \<Rightarrow> string \<Rightarrow> split_result"

text \<open>
  What a text-reveal helper reads and writes: the steps of the timeline it was handed,
  \<^verbatim>\<open>cache.splitTexts\<close>, the classes added to fragments, and
  \<^verbatim>\<open>element.textContent.length\<close>. \<open>split_calls\<close> is instrumentation: every call
  of \<^verbatim>\<open>SplitText.create\<close>, with its targets, type and mask.
\<close>

record reveal_state =
  timeline_steps :: "anim_step list"
  splitTexts :: "element \<rightharpoonup> split_result"
  classList_added :: "(element \<times> string) list"
  textLength :: "element \<Rightarrow> nat"
  split_calls :: "(element list \<times> string \<times> string) list"

definition timeline_from ::
  "targets \<Rightarrow> (string \<times> var_value) list \<Rightarrow> rat \<Rightarrow> reveal_state \<Rightarrow> reveal_state" where
  "timeline_from tg vars position st =
     st\<lparr> timeline_steps := timeline_steps st @ [From tg vars position] \<rparr>"

definition targets_of :: "element list option \<Rightarrow> targets" where
  "targets_of fr = (case fr of None \<Rightarrow> UndefinedTargets | Some es \<Rightarrow> Many es)"

text \<open>\<^verbatim>\<open>fragments?.forEach(f => f.classList.add(cls))\<close>.\<close>

definition add_class :: "element list option \<Rightarrow> string \<Rightarrow> reveal_state \<Rightarrow> reveal_state" where
  "add_class fr cls st =
     (case fr of None \<Rightarrow> st
      | Some es \<Rightarrow> st\<lparr> classList_added := classList_added st @ map (\<lambda>e. (e, cls)) es \<rparr>)"

definition SplitText_create ::
  "split_text \<Rightarrow> element list \<Rightarrow> string \<Rightarrow> string \<Rightarrow> reveal_state \<Rightarrow> split_result \<times> reveal_state" where
  "SplitText_create ST tg ty msk st =
     (ST tg ty msk, st\<lparr> split_calls := split_calls st @ [(tg, ty, msk)] \<rparr>)"

text \<open>The single-element fade of the low-end branch.\<close>

definition fade_vars :: "(string \<times> var_value) list" where
  "fade_vars = [(''opacity'', NumV 0), (''y'', NumV 20), (''duration'', NumV (1 / 2))]"

definition chars_vars :: "(string \<times> var_value) list" where
  "chars_vars = [(''opacity'', NumV 0), (''yPercent'', NumV 100), (''duration'', NumV (1 / 2)),
                 (''stagger.amount'', NumV (3 / 10)), (''stagger.from'', StrV ''start'')]"

definition lines_vars :: "bool \<Rightarrow> (string \<times> var_value) list" where
  "lines_vars mobile = [(''opacity'', NumV 0), (''yPercent'', NumV 100), (''duration'', NumV (45 / 100)),
                        (''stagger'', NumV (if mobile then 1 / 10 else 15 / 100))]"

text \<open>script.js, \<^verbatim>\<open>animationHelpers.splitHeading(element, timeline, delay)\<close>;
  \<^verbatim>\<open>null\<close> is \<open>None\<close>, for the element and for the result.\<close>

definition splitHeading ::
  "split_text \<Rightarrow> mobile_config \<Rightarrow> element option \<Rightarrow> rat \<Rightarrow> reveal_state
     \<Rightarrow> split_result option \<times> reveal_state" where
  "splitHeading ST cfg element delay st =
     (case element of
        None \<Rightarrow> (None, st)
      | Some el \<Rightarrow>
          if isLowEndDevice cfg then (None, timeline_from (One el) fade_vars delay st)
          else (case splitTexts st el of
                  Some split \<Rightarrow> (Some split, timeline_from (targets_of (chars split)) chars_vars delay st)
                | None \<Rightarrow>
                    (let splitType = (if textLength st el > 100 then ''words''
                                      else ''chars, lines, words'');
                         (split, st1) = SplitText_create ST [el] splitType ''chars'' st;
                         st2 = add_class (chars split) ''split-char'' st1;
                         st3 = add_class (masks split) ''split-mask'' st2;
                         st4 = st3\<lparr> splitTexts := (splitTexts st3)(el \<mapsto> split) \<rparr>;
                         tg = (case chars split of Some cs \<Rightarrow> Many cs
                               | None \<Rightarrow> targets_of (words split))
                     in (Some split, timeline_from tg chars_vars delay st4))))"

text \<open>script.js, \<^verbatim>\<open>animationHelpers.splitParagraph(elements, timeline, delay)\<close>.
  \<open>mobile\<close> is \<^verbatim>\<open>utils.isMobile()\<close>. The \<^verbatim>\<open>Array.isArray\<close> wrapping only
  changes how the same elements are handed to \<^verbatim>\<open>SplitText.create\<close>.\<close>

definition splitParagraph ::
  "split_text \<Rightarrow> mobile_config \<Rightarrow> bool \<Rightarrow> element list option \<Rightarrow> rat \<Rightarrow> reveal_state
     \<Rightarrow> split_result option \<times> reveal_state" where
  "splitParagraph ST cfg mobile elements delay st =
     (case elements of
        None \<Rightarrow> (None, st)
      | Some es \<Rightarrow>
          if length es = 0 then (None, st)
          else if isLowEndDevice cfg then (None, timeline_from (Many es) fade_vars delay st)
          else (let (split, st1) = SplitText_create ST es ''lines'' ''lines'' st;
                    st2 = add_class (lines split) ''split-line'' st1;
                    st3 = add_class (masks split) ''split-mask'' st2
                in (Some split, timeline_from (targets_of (lines split)) (lines_vars mobile) delay st3)))"

text \<open>jamboree.js: the same two helpers, testing \<^verbatim>\<open>CONFIG.mobile.reducedMotion\<close>
  directly, without the split cache and without the length limit. The fragment lists
  they read are the ones of the type they ask for, which the split always produces.\<close>

definition splitHeading_jamboree ::
  "split_text \<Rightarrow> mobile_config \<Rightarrow> element option \<Rightarrow> rat \<Rightarrow> reveal_state
     \<Rightarrow> split_result option \<times> reveal_state" where
  "splitHeading_jamboree ST cfg element delay st =
     (case element of
        None \<Rightarrow> (None, st)
      | Some el \<Rightarrow>
          if reducedMotion cfg then (None, timeline_from (One el) fade_vars delay st)
          else (let (split, st1) = SplitText_create ST [el] ''chars, lines, words'' ''chars'' st;
                    st2 = add_class (chars split) ''split-char'' st1;
                    st3 = add_class (masks split) ''split-mask'' st2
                in (Some split, timeline_from (targets_of (chars split)) chars_vars delay st3)))"

definition splitParagraph_jamboree ::
  "split_text \<Rightarrow> mobile_config \<Rightarrow> bool \<Rightarrow> element list option \<Rightarrow> rat \<Rightarrow> reveal_state
     \<Rightarrow> split_result option \<times> reveal_state" where
  "splitParagraph_jamboree ST cfg mobile elements delay st =
     (case elements of
        None \<Rightarrow> (None, st)
      | Some es \<Rightarrow>
          if length es = 0 then (None, st)
          else if reducedMotion cfg then (None, timeline_from (Many es) fade_vars delay st)
          else (let (split, st1) = SplitText_create ST es ''lines'' ''lines'' st;
                    st2 = add_class (lines split) ''split-line'' st1;
                    st3 = add_class (masks split) ''split-mask'' st2
                in (Some split, timeline_from (targets_of (lines split)) (lines_vars mobile) delay st3)))"

section \<open>Section initializers and the caches\<close>

text \<open>
  A timeline as \<^verbatim>\<open>gsap.timeline(...)\<close> builds it: the scroll trigger it was
  configured with, if any, and the steps added to it so far. A timeline handle is its
  position in the list of all timelines constructed.
\<close>

record timeline =
  tl_trigger :: "element option"
  tl_start :: "string option"
  tl_end :: "string option"
  tl_steps :: "anim_step list"

text \<open>
  A per-section handler (\<^verbatim>\<open>animateHeroMain\<close>, ..., \<^verbatim>\<open>animateFAQ\<close>) reads the
  descendants of its section and adds steps to the timeline it is handed; it neither
  reads nor writes \<^verbatim>\<open>cache.animations\<close>, constructs no timeline and does not
  touch the observer. It is modelled by the steps it adds for a section, and is taken to
  return normally.
\<close>

type_synonym handler = "element \<Rightarrow> anim_step list"

text \<open>An entry of \<^verbatim>\<open>animationConfigs\<close>.\<close>

record config =
  cfg_selector :: string
  cfg_handler :: handler
  cfg_start :: "string option"

text \<open>
  The state of one page session. \<^verbatim>\<open>cache.animations\<close> is a WeakMap (a partial map:
  it cannot be enumerated, counted or cleared); \<^verbatim>\<open>cache.timelines\<close>,
  \<^verbatim>\<open>cache.observers\<close> and \<^verbatim>\<open>utils.domCache\<close> are Maps (association lists in
  insertion order). \<open>io_targets\<close> holds, for each IntersectionObserver constructed, the
  elements it observes; \<open>scrollTriggers\<close> is \<^verbatim>\<open>ScrollTrigger.getAll()\<close> and
  \<open>globalTimeline\<close> the children of \<^verbatim>\<open>gsap.globalTimeline\<close>, both as timeline
  handles.
\<close>

record session =
  visibility :: "element \<Rightarrow> string option"
  animationTrigger :: "element \<Rightarrow> string option"
  cache_animations :: "element \<rightharpoonup> nat"
  cache_timelines :: "(string \<times> nat) list"
  cache_observers :: "(string \<times> nat) list"
  domCache :: "(string \<times> element) list"
  gsap_timelines :: "timeline list"
  scrollTriggers :: "nat list"
  globalTimeline :: "nat list"
  io_targets :: "element list list"

definition set_visible :: "element \<Rightarrow> session \<Rightarrow> session" where
  "set_visible el s = s\<lparr> visibility := (visibility s)(el := Some ''visible'') \<rparr>"

definition gsap_timeline :: "timeline \<Rightarrow> session \<Rightarrow> nat \<times> session" where
  "gsap_timeline t s =
     (let h = length (gsap_timelines s)
      in (h, s\<lparr> gsap_timelines := gsap_timelines s @ [t],
               globalTimeline := globalTimeline s @ [h],
               scrollTriggers := (if tl_trigger t = None then scrollTriggers s
                                  else scrollTriggers s @ [h]) \<rparr>))"

text \<open>\<^verbatim>\<open>handler(section, timeline)\<close>: the handler's steps go to that timeline. The
  handle is always the one just constructed; a handle out of range, which no caller
  passes, changes nothing.\<close>

definition run_handler :: "handler \<Rightarrow> element \<Rightarrow> nat \<Rightarrow> session \<Rightarrow> session" where
  "run_handler h el tlh s =
     (if tlh < length (gsap_timelines s)
      then s\<lparr> gsap_timelines := (gsap_timelines s)
                 [tlh := (gsap_timelines s ! tlh)
                           \<lparr> tl_steps := tl_steps (gsap_timelines s ! tlh) @ h el \<rparr>] \<rparr>
      else s)"

definition cache_animations_set :: "element \<Rightarrow> nat \<Rightarrow> session \<Rightarrow> session" where
  "cache_animations_set el tlh s = s\<lparr> cache_animations := (cache_animations s)(el \<mapsto> tlh) \<rparr>"

text \<open>\<^verbatim>\<open>config.start || CONFIG.scrollTrigger.start\<close>: the default stands in for
  a missing start and for the empty string.\<close>

definition start_or_default :: "config \<Rightarrow> string" where
  "start_or_default c =
     (case cfg_start c of None \<Rightarrow> ''top 70%''
      | Some st \<Rightarrow> if st = [] then ''top 70%'' else st)"

text \<open>script.js, \<^verbatim>\<open>setupScrollTrigger(section, config)\<close>.\<close>

definition setupScrollTrigger :: "element \<Rightarrow> config \<Rightarrow> session \<Rightarrow> session" where
  "setupScrollTrigger el c s =
     (if cache_animations s el \<noteq> None then s
      else (let s1 = set_visible el s;
                (tlh, s2) = gsap_timeline \<lparr> tl_trigger = Some el,
                                           tl_start = Some (start_or_default c),
                                           tl_end = None, tl_steps = [] \<rparr> s1;
                s3 = run_handler (cfg_handler c) el tlh s2
            in cache_animations_set el tlh s3))"

text \<open>jamboree.js, \<^verbatim>\<open>setupAnimation(section, config)\<close>; its \<^verbatim>\<open>animationCache\<close>
  is the field \<open>cache_animations\<close>.\<close>

definition setupAnimation :: "element \<Rightarrow> config \<Rightarrow> session \<Rightarrow> session" where
  "setupAnimation el c s =
     (if cache_animations s el \<noteq> None then s
      else (let s1 = set_visible el s;
                (tlh, s2) = gsap_timeline \<lparr> tl_trigger = Some el,
                                           tl_start = Some (start_or_default c),
                                           tl_end = Some (start_or_default c), tl_steps = [] \<rparr> s1;
                s3 = run_handler (cfg_handler c) el tlh s2
            in cache_animations_set el tlh s3))"

text \<open>The keys of \<^verbatim>\<open>animationMap\<close> in script.js.\<close>

definition registered_kinds :: "string list" where
  "registered_kinds =
     [''hero-main'', ''stacked-content'', ''image-split'', ''icons-grid'', ''cta'', ''footer'',
      ''download'', ''hero-banner'', ''landingpage-hero'', ''tabs'', ''featured-testimonials'',
      ''faq'']"

text \<open>
  \<^verbatim>\<open>animationMap[trigger]\<close> is a property lookup on an object literal: besides the
  twelve own keys it finds the members the object inherits from \<^verbatim>\<open>Object.prototype\<close>.
  Those belong to the host: \<open>inherited name\<close> is \<open>None\<close> when there is no such member,
  and otherwise says whether calling the member as \<^verbatim>\<open>handler(section, timeline)\<close>
  throws.
\<close>

datatype 'h property = NoProperty | OwnProperty 'h | InheritedMember bool

definition animationMap ::
  "(string \<Rightarrow> handler) \<Rightarrow> (string \<Rightarrow> bool option) \<Rightarrow> string \<Rightarrow> handler property" where
  "animationMap H inherited trigger =
     (if trigger \<in> set registered_kinds then OwnProperty (H trigger)
      else (case inherited trigger of None \<Rightarrow> NoProperty
            | Some throws \<Rightarrow> InheritedMember throws))"

record entry =
  target :: element
  isIntersecting :: bool

text \<open>\<^verbatim>\<open>observer.unobserve(el)\<close> and, further down, \<^verbatim>\<open>observer.disconnect()\<close>,
  for the observer with handle \<open>obs\<close>.\<close>

definition unobserve :: "nat \<Rightarrow> element \<Rightarrow> session \<Rightarrow> session" where
  "unobserve obs el s =
     (if obs < length (io_targets s)
      then s\<lparr> io_targets := (io_targets s)[obs := removeAll el (io_targets s ! obs)] \<rparr>
      else s)"

text \<open>\<^verbatim>\<open>entry.target.dataset.animationTrigger\<close> as a property key.\<close>

definition trigger_key :: "session \<Rightarrow> element \<Rightarrow> string" where
  "trigger_key s el = (case animationTrigger s el of None \<Rightarrow> ''undefined'' | Some k \<Rightarrow> k)"

text \<open>
  script.js, the body of the observer callback for one entry. The result carries the
  session as the entry left it and the exception that escaped, if any.
\<close>

definition observer_entry ::
  "(string \<Rightarrow> handler) \<Rightarrow> (string \<Rightarrow> bool option) \<Rightarrow> nat \<Rightarrow> entry \<Rightarrow> session
     \<Rightarrow> session \<times> js_error option" where
  "observer_entry H inherited obs e s =
     (if isIntersecting e \<and> cache_animations s (target e) = None
      then (case animationMap H inherited (trigger_key s (target e)) of
              NoProperty \<Rightarrow> (s, None)
            | OwnProperty h \<Rightarrow>
                (let s1 = set_visible (target e) s;
                     (tlh, s2) = gsap_timeline \<lparr> tl_trigger = None, tl_start = None,
                                                tl_end = None, tl_steps = [] \<rparr> s1;
                     s3 = run_handler h (target e) tlh s2;
                     s4 = cache_animations_set (target e) tlh s3
                 in (unobserve obs (target e) s4, None))
            | InheritedMember throws \<Rightarrow>
                (let s1 = set_visible (target e) s;
                     (tlh, s2) = gsap_timeline \<lparr> tl_trigger = None, tl_start = None,
                                                tl_end = None, tl_steps = [] \<rparr> s1
                 in if throws then (s2, Some (TypeError ''handler''))
                    else (unobserve obs (target e) (cache_animations_set (target e) tlh s2),
                          None)))
      else (s, None))"

text \<open>\<^verbatim>\<open>entries.forEach(...)\<close>: an exception ends the loop.\<close>

fun observer_callback ::
  "(string \<Rightarrow> handler) \<Rightarrow> (string \<Rightarrow> bool option) \<Rightarrow> nat \<Rightarrow> entry list \<Rightarrow> session
     \<Rightarrow> session \<times> js_error option" where
  "observer_callback H inherited obs [] s = (s, None)"
| "observer_callback H inherited obs (e # es) s =
     (case observer_entry H inherited obs e s of
        (s', None) \<Rightarrow> observer_callback H inherited obs es s'
      | (s', Some err) \<Rightarrow> (s', Some err))"

text \<open>
  script.js, \<^verbatim>\<open>initIntersectionObserverAnimations\<close>: a new observer watches, for
  each registered kind, the elements of the document whose
  \<^verbatim>\<open>data-animation-trigger\<close> is that kind, and is stored under \<^verbatim>\<open>'main'\<close>.
\<close>

definition initIntersectionObserverAnimations :: "element list \<Rightarrow> session \<Rightarrow> session" where
  "initIntersectionObserverAnimations document s =
     (let obs = length (io_targets s);
          els = concat (map (\<lambda>trigger. filter (\<lambda>el. animationTrigger s el = Some trigger) document)
                          registered_kinds)
      in s\<lparr> io_targets := io_targets s @ [els],
            cache_observers := AList.update ''main'' obs (cache_observers s) \<rparr>)"

text \<open>An initialization attempt, by any of the three routes.\<close>

datatype attempt =
  ViaScrollTrigger element config
| ViaAnimation element config
| ViaObserver nat "entry list"

fun attempt_step ::
  "(string \<Rightarrow> handler) \<Rightarrow> (string \<Rightarrow> bool option) \<Rightarrow> attempt \<Rightarrow> session \<Rightarrow> session" where
  "attempt_step H inherited (ViaScrollTrigger el c) s = setupScrollTrigger el c s"
| "attempt_step H inherited (ViaAnimation el c) s = setupAnimation el c s"
| "attempt_step H inherited (ViaObserver obs es) s = fst (observer_callback H inherited obs es s)"

definition attempts ::
  "(string \<Rightarrow> handler) \<Rightarrow> (string \<Rightarrow> bool option) \<Rightarrow> attempt list \<Rightarrow> session \<Rightarrow> session" where
  "attempts H inherited as s = fold (attempt_step H inherited) as s"

subsection \<open>Cleanup and diagnostics\<close>

text \<open>
  A WeakMap has the methods \<^verbatim>\<open>get\<close>, \<^verbatim>\<open>set\<close>, \<^verbatim>\<open>has\<close> and \<^verbatim>\<open>delete\<close>
  only. Its \<^verbatim>\<open>clear\<close> property is \<^verbatim>\<open>undefined\<close>, and calling it throws a
  TypeError; its \<^verbatim>\<open>size\<close> property is \<^verbatim>\<open>undefined\<close>. A Map has both.
\<close>

datatype js_value = Undefined | Number nat

definition weakmap_clear :: "('k \<rightharpoonup> 'v) \<Rightarrow> js_error + ('k \<rightharpoonup> 'v)" where
  "weakmap_clear m = Inl (TypeError ''clear is not a function'')"

definition weakmap_size :: "('k \<rightharpoonup> 'v) \<Rightarrow> js_value" where
  "weakmap_size m = Undefined"

definition map_clear :: "('k \<times> 'v) list \<Rightarrow> ('k \<times> 'v) list" where
  "map_clear m = []"

definition map_size :: "('k \<times> 'v) list \<Rightarrow> js_value" where
  "map_size m = Number (length m)"

definition disconnect :: "nat \<Rightarrow> session \<Rightarrow> session" where
  "disconnect obs s =
     (if obs < length (io_targets s) then s\<lparr> io_targets := (io_targets s)[obs := [] ] \<rparr> else s)"

text \<open>\<^verbatim>\<open>ScrollTrigger.getAll().forEach(trigger => trigger.kill())\<close>.\<close>

definition kill_all_scrollTriggers :: "session \<Rightarrow> session" where
  "kill_all_scrollTriggers s = s\<lparr> scrollTriggers := [] \<rparr>"

text \<open>script.js, \<^verbatim>\<open>cleanup()\<close>, statement by statement; the result carries the
  exception that escaped, if any.\<close>

definition cleanup :: "session \<Rightarrow> session \<times> js_error option" where
  "cleanup s =
     (let s1 = kill_all_scrollTriggers s
      in case weakmap_clear (cache_animations s1) of
           Inl err \<Rightarrow> (s1, Some err)
         | Inr m \<Rightarrow>
             (let s2 = s1\<lparr> cache_animations := m \<rparr>;
                  s3 = s2\<lparr> cache_timelines := map_clear (cache_timelines s2) \<rparr>;
                  s4 = fold (\<lambda>(name, obs). disconnect obs) (cache_observers s3) s3;
                  s5 = s4\<lparr> cache_observers := map_clear (cache_observers s4) \<rparr>;
                  s6 = s5\<lparr> domCache := map_clear (domCache s5) \<rparr>
              in (s6\<lparr> globalTimeline := [] \<rparr>, None)))"

text \<open>jamboree.js, \<^verbatim>\<open>window.cleanupAnimations\<close>.\<close>

definition cleanupAnimations :: "session \<Rightarrow> session \<times> js_error option" where
  "cleanupAnimations s =
     (let s1 = kill_all_scrollTriggers s
      in case weakmap_clear (cache_animations s1) of
           Inl err \<Rightarrow> (s1, Some err)
         | Inr m \<Rightarrow> (s1\<lparr> cache_animations := m \<rparr>, None))"

record metrics =
  animationCount :: js_value
  timelineCount :: js_value
  observerCount :: js_value
  domCacheSize :: js_value

text \<open>script.js, \<^verbatim>\<open>WebflowAnimations.getPerformanceMetrics()\<close>.\<close>

definition getPerformanceMetrics :: "session \<Rightarrow> metrics" where
  "getPerformanceMetrics s =
     \<lparr> animationCount = weakmap_size (cache_animations s),
       timelineCount = map_size (cache_timelines s),
       observerCount = map_size (cache_observers s),
       domCacheSize = map_size (domCache s) \<rparr>"

section \<open>Predicates and examples used in the properties\<close>

text \<open>The wrapper is idle exactly when no frame callback of its own is queued, and it
  never has more than one queued.\<close>

definition queue_inv :: "'a throttle \<Rightarrow> bool" where
  "queue_inv th = ((requestId th = None) = (rafQueue th = []) \<and> length (rafQueue th) \<le> 1)"

text \<open>The runs so far are spaced by the interval as computed, and \<open>lastTime\<close> is the
  timestamp of the latest run.\<close>

definition spacing_inv :: "nat \<Rightarrow> 'a throttle \<Rightarrow> bool" where
  "spacing_inv fps th =
     (spaced (fl (1000 / of_nat fps)) (map fst (executed th))
      \<and> (executed th = [] \<or> fst (last (executed th)) = lastTime th))"

text \<open>The \<open>j\<close>-th piece of \<open>b\<close> consecutive items.\<close>

definition window :: "nat \<Rightarrow> 'a list \<Rightarrow> nat \<Rightarrow> 'a list" where
  "window b xs j = take b (drop (j * b) xs)"

text \<open>The \<^verbatim>\<open>data-nav\<close> attribute says "open" exactly when the flag is set.\<close>

definition attr_tracks_flag :: "menu \<Rightarrow> bool" where
  "attr_tracks_flag m = ((dataNav m = Some ''open'') = isOpen m)"

text \<open>A page with a menu button and two fade targets, whose nav wrapper carries no
  \<^verbatim>\<open>data-nav\<close> attribute yet.\<close>

definition example_menu :: menu_elements where
  "example_menu = \<lparr> hasMenuButton = True, fadeTargetsLength = 2, initialDataNav = None,
                    initialIsOpened = False \<rparr>"

text \<open>
  A session some time after \<^verbatim>\<open>init\<close>, on a page with a menu and three sections.
  The FAQ section (element 7) has scrolled into view: the menu timeline is handle 0, the
  section's is handle 1, and the observer stored under \<^verbatim>\<open>'main'\<close> has let go of it.
  The CTA section (element 9) has not come into view yet. Element 8 is still watched, and
  its \<^verbatim>\<open>data-animation-trigger\<close> now reads \<^verbatim>\<open>carousel\<close>, which is not a
  registered kind.
\<close>

definition example_session :: session where
  "example_session =
     \<lparr> visibility = (\<lambda>el. None)(7 := Some ''visible''),
       animationTrigger = (\<lambda>el. None)(7 := Some ''faq'', 8 := Some ''carousel'', 9 := Some ''cta''),
       cache_animations = [7 \<mapsto> 1],
       cache_timelines = [(''menu'', 0)],
       cache_observers = [(''main'', 0)],
       domCache = [(''doc-.nav'', 3)],
       gsap_timelines = [\<lparr> tl_trigger = None, tl_start = None, tl_end = None, tl_steps = [] \<rparr>,
                         \<lparr> tl_trigger = None, tl_start = None, tl_end = None, tl_steps = [] \<rparr>],
       scrollTriggers = [],
       globalTimeline = [0, 1],
       io_targets = [ [8, 9] ] \<rparr>"

text \<open>Handlers that add one fade of the section itself, and a configuration entry.\<close>

definition example_handlers :: "string \<Rightarrow> handler" where
  "example_handlers kind = (\<lambda>el. [From (One el) fade_vars 0])"

definition example_config :: config where
  "example_config =
     \<lparr> cfg_selector = ''[data-animation-trigger=cta]'',
       cfg_handler = example_handlers ''cta'',
       cfg_start = None \<rparr>"

text \<open>A host whose only inherited member of interest is \<^verbatim>\<open>valueOf\<close>, which throws
  when called without a receiver.\<close>

definition example_inherited :: "string \<Rightarrow> bool option" where
  "example_inherited name = (if name = ''valueOf'' then Some True else None)"

text \<open>A capability descriptor with the reduced-motion preference set, a split that
  yields no fragments, and an empty timeline.\<close>

definition reduced_motion_config :: mobile_config where
  "reduced_motion_config = \<lparr> breakpoint = 768, reducedMotion = True, isLowEnd = False \<rparr>"

definition example_split :: split_text where
  "example_split tg ty msk = \<lparr> chars = Some [], words = Some [], lines = Some [], masks = Some [] \<rparr>"

definition example_reveal :: reveal_state where
  "example_reveal =
     \<lparr> timeline_steps = [], splitTexts = Map.empty, classList_added = [],
       textLength = (\<lambda>el. 12), split_calls = [] \<rparr>"

section \<open>Properties\<close>

subsection \<open>Capability detector\<close>

text \<open>
  C8. When \<^verbatim>\<open>navigator.hardwareConcurrency\<close> is undefined the computed
  \<open>isLowEnd\<close> flag is false; without the reduced-motion preference such a host is not
  a low-end device and \<^verbatim>\<open>init\<close> does not take the simple (degraded) branch.
  The detector is a total function with no failing branch.
\<close>

theorem absent_core_count_not_low_end:
  "isLowEnd (CONFIG_mobile (env\<lparr>hardwareConcurrency := None\<rparr>)) = False
   \<and> isLowEndDevice (CONFIG_mobile (env\<lparr>hardwareConcurrency := None,
                                         prefersReducedMotion := False\<rparr>)) = False
   \<and> init_strategy (env\<lparr>hardwareConcurrency := None, prefersReducedMotion := False\<rparr>)
       \<noteq> SimpleAnimations"
  by (simp add: CONFIG_mobile_def isLowEndDevice_def init_strategy_def)

subsection \<open>A fold keeps what every step keeps\<close>

lemma fold_preserves:
  "(\<And>x s. P s \<Longrightarrow> P (f x s)) \<Longrightarrow> P s \<Longrightarrow> P (fold f xs s)"
  by (induction xs arbitrary: s) auto

subsection \<open>Double rounding\<close>

lemma rne_bounds: "\<lfloor>q\<rfloor> \<le> rne q \<and> rne q \<le> \<lfloor>q\<rfloor> + 1"
  by (simp add: rne_def Let_def)

lemma rne_of_int [simp]: "rne (of_int k) = k"
  by (simp add: rne_def)

lemma rne_mono: "q \<le> q' \<Longrightarrow> rne q \<le> rne q'"
proof -
  assume le: "q \<le> q'"
  then have fm: "\<lfloor>q\<rfloor> \<le> \<lfloor>q'\<rfloor>" by (rule floor_mono)
  show ?thesis
  proof (cases "\<lfloor>q\<rfloor> = \<lfloor>q'\<rfloor>")
    case True
    with le have "q - of_int \<lfloor>q\<rfloor> \<le> q' - of_int \<lfloor>q'\<rfloor>" by simp
    with True show ?thesis by (auto simp: rne_def Let_def)
  next
    case False
    with fm have "\<lfloor>q\<rfloor> + 1 \<le> \<lfloor>q'\<rfloor>" by simp
    with rne_bounds[of q] rne_bounds[of q'] show ?thesis by linarith
  qed
qed

lemma rne_ge: "of_int b \<le> q \<Longrightarrow> b \<le> rne q"
  using rne_mono[of "of_int b" q] by simp

lemma rne_le: "q \<le> of_int c \<Longrightarrow> rne q \<le> c"
  using rne_mono[of q "of_int c"] by simp

lemma expo_bounds:
  assumes "0 < x"
  shows "2 powi (expo x) \<le> x \<and> x < 2 powi (expo x + 1)"
proof -
  obtain p q where pq: "quotient_of x = (p, q)" by (cases "quotient_of x")
  then have q: "0 < q" by (rule quotient_of_denom_pos)
  have x: "x = of_int p / of_int q" using pq by (simp add: quotient_of_div)
  with assms q have p: "0 < p" by (simp add: zero_less_divide_iff)
  define bp where "bp = floorlog 2 (nat p)"
  define bq where "bq = floorlog 2 (nat q)"
  have bpb: "2 ^ (bp - 1) \<le> nat p" "nat p < 2 ^ bp"
    using floorlog_bounds[of "nat p" 2] p by (simp_all add: bp_def)
  have bqb: "2 ^ (bq - 1) \<le> nat q" "nat q < 2 ^ bq"
    using floorlog_bounds[of "nat q" 2] q by (simp_all add: bq_def)
  have bp1: "1 \<le> bp" using p by (simp add: bp_def floorlog_def)
  have bq1: "1 \<le> bq" using q by (simp add: bq_def floorlog_def)
  have P: "(2::rat) ^ (bp - 1) \<le> of_int p" "of_int p < (2::rat) ^ bp"
  proof -
    from bpb(1) have "rat_of_nat (2 ^ (bp - 1)) \<le> rat_of_nat (nat p)" by (simp only: of_nat_le_iff)
    with p show "(2::rat) ^ (bp - 1) \<le> of_int p" by simp
    from bpb(2) have "rat_of_nat (nat p) < rat_of_nat (2 ^ bp)" by (simp only: of_nat_less_iff)
    with p show "of_int p < (2::rat) ^ bp" by simp
  qed
  have Q: "(2::rat) ^ (bq - 1) \<le> of_int q" "of_int q < (2::rat) ^ bq"
  proof -
    from bqb(1) have "rat_of_nat (2 ^ (bq - 1)) \<le> rat_of_nat (nat q)" by (simp only: of_nat_le_iff)
    with q show "(2::rat) ^ (bq - 1) \<le> of_int q" by simp
    from bqb(2) have "rat_of_nat (nat q) < rat_of_nat (2 ^ bq)" by (simp only: of_nat_less_iff)
    with q show "of_int q < (2::rat) ^ bq" by simp
  qed
  define d where "d = int bp - int bq"
  have qpos: "(0::rat) < of_int q" using q by simp
  have up: "x < 2 powi (d + 1)"
  proof -
    have "x * of_int q = of_int p" using x qpos by simp
    also have "\<dots> < 2 ^ bp" by (rule P(2))
    also have "(2::rat) ^ bp = 2 powi (d + 1) * 2 ^ (bq - 1)"
    proof -
      have i: "int (bq - 1) = int bq - 1" using bq1 by simp
      have "2 powi (d + 1) * (2::rat) ^ (bq - 1) = 2 powi (d + 1) * 2 powi (int (bq - 1))"
        by (simp only: power_int_of_nat)
      also have "\<dots> = 2 powi (d + 1 + int (bq - 1))"
        by (rule power_int_add[symmetric]) simp
      also have "d + 1 + int (bq - 1) = int bp" using bq1 unfolding d_def by linarith
      also have "(2::rat) powi (int bp) = 2 ^ bp" by (rule power_int_of_nat)
      finally show ?thesis by (rule sym)
    qed
    also have "\<dots> \<le> 2 powi (d + 1) * of_int q"
      by (rule mult_left_mono[OF Q(1)]) simp
    finally show ?thesis using qpos by simp
  qed
  have low: "2 powi (d - 1) \<le> x"
  proof -
    have "2 powi (d - 1) * of_int q \<le> 2 powi (d - 1) * (2::rat) ^ bq"
      by (rule mult_left_mono) (use Q(2) in simp_all)
    also have "\<dots> = 2 powi (d - 1) * 2 powi (int bq)"
      by (simp only: power_int_of_nat)
    also have "\<dots> = 2 powi (d - 1 + int bq)"
      by (rule power_int_add[symmetric]) simp
    also have "d - 1 + int bq = int (bp - 1)" using bp1 unfolding d_def by linarith
    also have "(2::rat) powi (int (bp - 1)) = 2 ^ (bp - 1)" by (rule power_int_of_nat)
    also have "\<dots> \<le> of_int p" by (rule P(1))
    also have "\<dots> = x * of_int q" using x qpos by simp
    finally show ?thesis using qpos by simp
  qed
  have e: "expo x = (if 2 powi d \<le> x then d else d - 1)"
    by (simp add: expo_def pq d_def bp_def bq_def Let_def bitlen_def)
  show ?thesis
  proof (cases "2 powi d \<le> x")
    case True
    with e up show ?thesis by simp
  next
    case False
    with e low show ?thesis by simp
  qed
qed

lemma expo_unique:
  assumes "2 powi e \<le> x" and "x < 2 powi (e + 1)"
  shows "expo x = e"
proof -
  have pos: "0 < x"
  proof -
    have "(0::rat) < 2 powi e" by (simp add: zero_less_power_int)
    with assms(1) show ?thesis by linarith
  qed
  note b = expo_bounds[OF pos]
  have "\<not> expo x < e"
  proof
    assume "expo x < e"
    then have "expo x + 1 \<le> e" by simp
    then have "(2::rat) powi (expo x + 1) \<le> 2 powi e" by (intro power_int_increasing) simp_all
    with b assms(1) show False by linarith
  qed
  moreover have "\<not> e < expo x"
  proof
    assume "e < expo x"
    then have "e + 1 \<le> expo x" by simp
    then have "(2::rat) powi (e + 1) \<le> 2 powi (expo x)" by (intro power_int_increasing) simp_all
    with b assms(2) show False by linarith
  qed
  ultimately show ?thesis by simp
qed

lemma expo_mono:
  assumes "0 < x" and "x \<le> y"
  shows "expo x \<le> expo y"
proof (rule ccontr)
  assume "\<not> expo x \<le> expo y"
  then have "expo y + 1 \<le> expo x" by simp
  then have "(2::rat) powi (expo y + 1) \<le> 2 powi (expo x)" by (intro power_int_increasing) simp_all
  moreover from assms have "0 < y" by simp
  ultimately show False
    using expo_bounds[OF assms(1)] expo_bounds[OF \<open>0 < y\<close>] assms(2) by linarith
qed

lemma fl_pos:
  assumes "0 < x"
  shows "fl x = of_int (rne (x / 2 powi (expo x - 52))) * 2 powi (expo x - 52)"
  using assms by (simp add: fl_def Let_def)

lemma fl_in_binade:
  assumes "0 < x"
  shows "2 powi (expo x) \<le> fl x \<and> fl x \<le> 2 powi (expo x + 1)"
proof -
  let ?u = "(2::rat) powi (expo x - 52)"
  have u: "0 < ?u" by (simp add: zero_less_power_int)
  note b = expo_bounds[OF assms]
  have lo: "2 powi (expo x) = of_int (2 ^ 52) * ?u"
  proof -
    have "expo x = 52 + (expo x - 52)" by simp
    then have "(2::rat) powi (expo x) = 2 powi (52 + (expo x - 52))" by (rule arg_cong)
    also have "\<dots> = 2 powi 52 * ?u" by (rule power_int_add) simp
    finally show ?thesis by simp
  qed
  have hi: "2 powi (expo x + 1) = of_int (2 ^ 53) * ?u"
  proof -
    have "expo x + 1 = 53 + (expo x - 52)" by simp
    then have "(2::rat) powi (expo x + 1) = 2 powi (53 + (expo x - 52))" by (rule arg_cong)
    also have "\<dots> = 2 powi 53 * ?u" by (rule power_int_add) simp
    finally show ?thesis by simp
  qed
  have "of_int (2 ^ 52) \<le> x / ?u" using b u unfolding lo by (simp add: pos_le_divide_eq)
  then have 1: "2 ^ 52 \<le> rne (x / ?u)" by (rule rne_ge)
  have "x / ?u \<le> of_int (2 ^ 53)" using b u unfolding hi by (simp add: pos_divide_le_eq)
  then have 2: "rne (x / ?u) \<le> 2 ^ 53" by (rule rne_le)
  from 1 have "(of_int (2 ^ 52) :: rat) \<le> of_int (rne (x / ?u))" by (simp only: of_int_le_iff)
  then have "of_int (2 ^ 52) * ?u \<le> of_int (rne (x / ?u)) * ?u"
    by (rule mult_right_mono) (rule less_imp_le[OF u])
  moreover from 2 have "(of_int (rne (x / ?u)) :: rat) \<le> of_int (2 ^ 53)"
    by (simp only: of_int_le_iff)
  then have "of_int (rne (x / ?u)) * ?u \<le> of_int (2 ^ 53) * ?u"
    by (rule mult_right_mono) (rule less_imp_le[OF u])
  ultimately show ?thesis unfolding lo hi fl_pos[OF assms] by simp
qed

lemma fl_mono_pos:
  assumes "0 < x" and "x \<le> y"
  shows "fl x \<le> fl y"
proof -
  from assms have y: "0 < y" by simp
  show ?thesis
  proof (cases "expo x = expo y")
    case True
    let ?u = "(2::rat) powi (expo y - 52)"
    have u: "0 < ?u" by (simp add: zero_less_power_int)
    from assms(2) u have "x / ?u \<le> y / ?u" by (simp add: divide_right_mono)
    then have "rne (x / ?u) \<le> rne (y / ?u)" by (rule rne_mono)
    then have "(of_int (rne (x / ?u)) :: rat) \<le> of_int (rne (y / ?u))" by simp
    then have "of_int (rne (x / ?u)) * ?u \<le> of_int (rne (y / ?u)) * ?u"
      using u by (intro mult_right_mono) simp_all
    then show ?thesis unfolding fl_pos[OF assms(1)] fl_pos[OF y] True .
  next
    case False
    with expo_mono[OF assms] have "expo x + 1 \<le> expo y" by simp
    then have "(2::rat) powi (expo x + 1) \<le> 2 powi (expo y)"
      by (intro power_int_increasing) simp_all
    with fl_in_binade[OF assms(1)] fl_in_binade[OF y] show ?thesis by linarith
  qed
qed

lemma fl_binade:
  assumes "2 powi e \<le> x" and "x < 2 powi (e + 1)"
  shows "fl x = of_int (rne (x / 2 powi (e - 52))) * 2 powi (e - 52)"
proof -
  have "(0::rat) < 2 powi e" by (simp add: zero_less_power_int)
  with assms(1) have "0 < x" by linarith
  then show ?thesis by (simp add: fl_pos expo_unique[OF assms])
qed

lemma rne_near:
  assumes "\<bar>q - of_int n\<bar> < 1 / 2"
  shows "rne q = n"
proof (cases "of_int n \<le> q")
  case True
  with assms have "\<lfloor>q\<rfloor> = n" by (intro floor_unique) linarith+
  with assms True show ?thesis by (simp add: rne_def Let_def)
next
  case False
  have "of_int (n - 1) = (of_int n :: rat) - 1" by simp
  with assms False have f: "\<lfloor>q\<rfloor> = n - 1" by (intro floor_unique) linarith+
  with assms False show ?thesis by (simp add: rne_def Let_def)
qed

lemma fl_eval:
  assumes "2 powi e \<le> x" and "x < 2 powi (e + 1)"
    and "\<bar>x / 2 powi (e - 52) - of_int n\<bar> < 1 / 2"
  shows "fl x = of_int n * 2 powi (e - 52)"
  by (simp add: fl_binade[OF assms(1,2)] rne_near[OF assms(3)])

text \<open>The doubles of the intervals at 24, 30 and 60 frames per second, and two exact
  differences.\<close>

lemma fl_interval_24: "fl (125 / 3) = 5864062014805333 / 140737488355328"
  by (rule fl_eval[of 5 _ 5864062014805333, THEN trans]) simp_all

lemma fl_interval_30: "fl (100 / 3) = 4691249611844267 / 140737488355328"
  by (rule fl_eval[of 5 _ 4691249611844267, THEN trans]) simp_all

lemma fl_interval_60: "fl (50 / 3) = 4691249611844267 / 281474976710656"
  by (rule fl_eval[of 4 _ 4691249611844267, THEN trans]) simp_all

lemma fl_16: "fl 16 = 16"
  by (rule fl_eval[of 4 _ "2 ^ 52", THEN trans]) simp_all

lemma fl_double_24:
  "fl (5864062014805333 / 140737488355328) = 5864062014805333 / 140737488355328"
  by (rule fl_eval[of 5 _ 5864062014805333, THEN trans]) simp_all

text \<open>A paint that is late enough in exact arithmetic passes the code's test, since
  rounding keeps the order.\<close>

lemma frame_due_exact:
  assumes "fps \<noteq> 0" and "1000 / of_nat fps \<le> t - lastT"
  shows "frame_due fps t lastT"
proof -
  from assms(1) have "(0::rat) < 1000 / of_nat fps" by simp
  from fl_mono_pos[OF this assms(2)] assms(1) show ?thesis by (simp add: frame_due_def)
qed

lemma frame_due_60_at_100: "frame_due 60 100 0"
  by (rule frame_due_exact) simp_all

lemma frame_due_30_at_1000: "frame_due 30 1000 0"
  by (rule frame_due_exact) simp_all

lemma not_frame_due_30_after_16: "\<not> frame_due 30 1016 1000"
  by (simp add: frame_due_def fl_16 fl_interval_30)

text \<open>
  The test follows the doubles, not the exact quotient. At 24 frames per second the
  interval is the double just below \<open>1000 / 24\<close>; a first paint at exactly that
  timestamp passes the test and runs the callback, and so does a second paint at twice
  the timestamp, although the two runs are less than \<open>1000 / 24\<close> ms apart.
\<close>

lemma frame_due_follows_the_doubles:
  "(5864062014805333 / 140737488355328 :: rat) < 1000 / 24
   \<and> frame_due 24 (5864062014805333 / 140737488355328) 0
   \<and> frame_due 24 (5864062014805333 / 70368744177664) (5864062014805333 / 140737488355328)"
  by (simp add: frame_due_def fl_interval_24 fl_double_24)

subsection \<open>rafThrottle\<close>

lemma throttled_queue_inv: "queue_inv th \<Longrightarrow> queue_inv (throttled args th)"
  by (auto simp: queue_inv_def throttled_def)

lemma animation_frame_queue_inv:
  assumes "queue_inv (fst st)"
  shows "queue_inv (fst (animation_frame fps cb t st))"
proof -
  obtain th s where st: "st = (th, s)" by (cases st)
  show ?thesis
  proof (cases "rafQueue th")
    case Nil
    with assms show ?thesis by (simp add: animation_frame_def st queue_inv_def)
  next
    case (Cons x xs)
    with assms have "xs = []" by (simp add: st queue_inv_def)
    with Cons show ?thesis
      by (cases x) (simp add: animation_frame_def st queue_inv_def raf_callback_def)
  qed
qed

lemma throttle_step_queue_inv:
  "queue_inv (fst st) \<Longrightarrow> queue_inv (fst (throttle_step fps cb ev st))"
  by (cases ev) (simp_all add: throttled_queue_inv animation_frame_queue_inv)

lemma throttle_run_queue_inv:
  "queue_inv (fst st) \<Longrightarrow> queue_inv (fst (throttle_run fps cb evs st))"
  unfolding throttle_run_def
  by (rule fold_preserves[where P = "\<lambda>st. queue_inv (fst st)"]) (simp_all add: throttle_step_queue_inv)

lemma spaced_snoc:
  "spaced d ts \<Longrightarrow> ts = [] \<or> fl (t - last ts) \<ge> d \<Longrightarrow> spaced d (ts @ [t])"
  by (induction d ts rule: spaced.induct) auto

lemma raf_callback_spacing:
  "spacing_inv fps (fst st) \<Longrightarrow> spacing_inv fps (fst (raf_callback fps cb t a st))"
proof (cases st)
  case (Pair th s)
  assume inv: "spacing_inv fps (fst st)"
  show ?thesis
  proof (cases "frame_due fps t (lastTime th)")
    case True
    have "map fst (executed th) = []
        \<or> fl (t - last (map fst (executed th))) \<ge> fl (1000 / of_nat fps)"
    proof (cases "executed th = []")
      case True
      then show ?thesis by simp
    next
      case False
      with inv Pair have "last (map fst (executed th)) = lastTime th"
        by (simp add: spacing_inv_def last_map)
      with True show ?thesis by (simp add: frame_due_def)
    qed
    with inv Pair have "spaced (fl (1000 / of_nat fps)) (map fst (executed th) @ [t])"
      by (intro spaced_snoc) (simp_all add: spacing_inv_def)
    with True Pair show ?thesis by (simp add: raf_callback_def spacing_inv_def)
  next
    case False
    with inv Pair show ?thesis by (simp add: raf_callback_def spacing_inv_def)
  qed
qed

lemma animation_frame_spacing:
  assumes "spacing_inv fps (fst st)"
  shows "spacing_inv fps (fst (animation_frame fps cb t st))"
proof -
  obtain th s where st: "st = (th, s)" by (cases st)
  have step: "spacing_inv fps (fst ((\<lambda>(h, args). raf_callback fps cb t args) x st'))"
    if "spacing_inv fps (fst st')" for x st'
    using that by (cases x) (simp add: raf_callback_spacing)
  have "spacing_inv fps (fst (fold (\<lambda>(h, args). raf_callback fps cb t args) q st'))"
    if "spacing_inv fps (fst st')" for q st'
    by (rule fold_preserves[where P = "\<lambda>st. spacing_inv fps (fst st)"]) (simp_all add: step that)
  from this[of "(th\<lparr>rafQueue := []\<rparr>, s)" "rafQueue th"] assms
  show ?thesis unfolding animation_frame_def st by (simp add: spacing_inv_def)
qed

lemma throttle_step_spacing:
  "spacing_inv fps (fst st) \<Longrightarrow> spacing_inv fps (fst (throttle_step fps cb ev st))"
  by (cases ev) (simp_all add: animation_frame_spacing, simp add: spacing_inv_def throttled_def)

lemma throttle_run_spacing:
  "spacing_inv fps (fst st) \<Longrightarrow> spacing_inv fps (fst (throttle_run fps cb evs st))"
  unfolding throttle_run_def
  by (rule fold_preserves[where P = "\<lambda>st. spacing_inv fps (fst st)"]) (simp_all add: throttle_step_spacing)

lemma throttled_pending: "requestId th \<noteq> None \<Longrightarrow> throttled a th = th"
  by (simp add: throttled_def)

lemma invoke_more_dropped:
  "requestId (fst st) \<noteq> None \<Longrightarrow> throttle_run fps cb (map Invoke bs) st = st"
  unfolding throttle_run_def
  by (induction bs) (simp_all add: throttled_pending)

lemma first_arguments_run:
  assumes "requestId th = None" and "rafQueue th = []"
  shows "throttle_run fps cb (map Invoke (a # bs) @ [Frame t]) (th, s) =
      (if frame_due fps t (lastTime th)
       then (th\<lparr> lastTime := t, executed := executed th @ [(t, a)],
                 nextHandle := Suc (nextHandle th) \<rparr>, cb a s)
       else (th\<lparr> nextHandle := Suc (nextHandle th) \<rparr>, s))"
proof -
  let ?th1 = "throttled a th"
  have 1: "throttle_run fps cb (map Invoke (a # bs) @ [Frame t]) (th, s)
      = throttle_run fps cb [Frame t] (throttle_run fps cb (map Invoke bs) (?th1, s))"
    by (simp add: throttle_run_def)
  have 2: "throttle_run fps cb (map Invoke bs) (?th1, s) = (?th1, s)"
    by (rule invoke_more_dropped) (simp add: throttled_def assms)
  show ?thesis
    unfolding 1 2 using assms
    by (simp add: throttle_run_def animation_frame_def raf_callback_def throttled_def)
qed

lemma animation_frame_jamboree_queue_inv:
  assumes "queue_inv (fst st)"
  shows "queue_inv (fst (animation_frame_jamboree cb t st))"
proof -
  obtain th s where st: "st = (th, s)" by (cases st)
  show ?thesis
  proof (cases "rafQueue th")
    case Nil
    with assms show ?thesis by (simp add: animation_frame_jamboree_def st queue_inv_def)
  next
    case (Cons x xs)
    with assms have "xs = []" by (simp add: st queue_inv_def)
    with Cons show ?thesis
      by (cases x) (simp add: animation_frame_jamboree_def st queue_inv_def raf_callback_jamboree_def)
  qed
qed

lemma throttle_step_jamboree_queue_inv:
  "queue_inv (fst st) \<Longrightarrow> queue_inv (fst (throttle_step_jamboree cb ev st))"
  by (cases ev) (simp_all add: throttled_queue_inv animation_frame_jamboree_queue_inv)

lemma throttle_run_jamboree_queue_inv:
  "queue_inv (fst st) \<Longrightarrow> queue_inv (fst (throttle_run_jamboree cb evs st))"
  unfolding throttle_run_jamboree_def
  by (rule fold_preserves[where P = "\<lambda>st. queue_inv (fst st)"])
     (simp_all add: throttle_step_jamboree_queue_inv)

lemma invoke_more_dropped_jamboree:
  "requestId (fst st) \<noteq> None \<Longrightarrow> throttle_run_jamboree cb (map Invoke bs) st = st"
  unfolding throttle_run_jamboree_def
  by (induction bs) (simp_all add: throttled_pending)

lemma first_arguments_run_jamboree:
  assumes "requestId th = None" and "rafQueue th = []"
  shows "throttle_run_jamboree cb (map Invoke (a # bs) @ [Frame t]) (th, s) =
      (th\<lparr> executed := executed th @ [(t, a)], nextHandle := Suc (nextHandle th) \<rparr>, cb a s)"
proof -
  let ?th1 = "throttled a th"
  have 1: "throttle_run_jamboree cb (map Invoke (a # bs) @ [Frame t]) (th, s)
      = throttle_run_jamboree cb [Frame t] (throttle_run_jamboree cb (map Invoke bs) (?th1, s))"
    by (simp add: throttle_run_jamboree_def)
  have 2: "throttle_run_jamboree cb (map Invoke bs) (?th1, s) = (?th1, s)"
    by (rule invoke_more_dropped_jamboree) (simp add: throttled_def assms)
  show ?thesis
    unfolding 1 2 using assms
    by (simp add: throttle_run_jamboree_def animation_frame_jamboree_def
        raf_callback_jamboree_def throttled_def)
qed

text \<open>
  C4, amended. For the wrapped function of script.js and for that of jamboree.js, from
  its creation and through any sequence of invocations and paints, at most one frame
  callback is pending; and when the idle wrapper is invoked with \<open>a\<close> and then any number
  of further times before the paint, the later invocations are dropped and the paint runs
  \<^verbatim>\<open>callback\<close> at most once, with \<open>a\<close>, the arguments of the first of these
  invocations. For script.js, which alone takes a frame rate, the paint runs the callback
  exactly when the code's test passes, and the runs are spaced as that test measures:
  the timestamp of each run minus the timestamp of the run before it, as a double, is at
  least the double \<open>1000 / fps\<close>. For jamboree.js every such paint runs the callback,
  with no spacing.
\<close>

theorem throttle_coalesces_to_first_call:
  "length (rafQueue (fst (throttle_run fps cb evs (rafThrottle, s)))) \<le> 1
   \<and> spaced (fl (1000 / of_nat fps))
        (map fst (executed (fst (throttle_run fps cb evs (rafThrottle, s)))))
   \<and> (requestId th = None \<and> rafQueue th = [] \<longrightarrow>
        throttle_run fps cb (map Invoke (a # bs) @ [Frame t]) (th, s') =
          (if frame_due fps t (lastTime th)
           then (th\<lparr> lastTime := t, executed := executed th @ [(t, a)],
                     nextHandle := Suc (nextHandle th) \<rparr>, cb a s')
           else (th\<lparr> nextHandle := Suc (nextHandle th) \<rparr>, s')))
   \<and> length (rafQueue (fst (throttle_run_jamboree cb evs (rafThrottle, s)))) \<le> 1
   \<and> (requestId th = None \<and> rafQueue th = [] \<longrightarrow>
        throttle_run_jamboree cb (map Invoke (a # bs) @ [Frame t]) (th, s') =
          (th\<lparr> executed := executed th @ [(t, a)], nextHandle := Suc (nextHandle th) \<rparr>,
           cb a s'))"
proof -
  have q: "queue_inv (fst (rafThrottle, s))" by (simp add: queue_inv_def rafThrottle_def)
  have sp: "spacing_inv fps (fst (rafThrottle, s))" by (simp add: spacing_inv_def rafThrottle_def)
  show ?thesis
    using throttle_run_queue_inv[OF q, of fps cb evs] throttle_run_spacing[OF sp, of cb evs]
      first_arguments_run[of th fps cb a bs t s']
      throttle_run_jamboree_queue_inv[OF q, of cb evs]
      first_arguments_run_jamboree[of th cb a bs t s']
    by (simp add: queue_inv_def spacing_inv_def)
qed

text \<open>
  C4 as stated fails. The pending frame callback keeps the arguments of the invocation
  that requested it: invoked with 1 and then with 2 before the paint at 100 ms, the
  callback runs with 1, not with the most recent arguments 2. The spacing is that of the
  doubles: at 24 frames per second the wrapper of script.js runs at the paint whose
  timestamp is the double of \<open>1000 / 24\<close> and again at twice that timestamp, less than
  \<open>1000 / 24\<close> ms later. And the wrapper of jamboree.js, which takes no frame rate, runs
  on paints 1 ms apart.
\<close>

theorem throttle_most_recent_arguments_counterexample:
  "snd (throttle_run 60 record_call [Invoke (1::nat), Invoke 2, Frame 100] (rafThrottle, []))
     = [1]
   \<and> snd (throttle_run 60 record_call [Invoke (1::nat), Invoke 2, Frame 100] (rafThrottle, []))
     \<noteq> [2]
   \<and> map fst (executed (fst (throttle_run 24 record_call
        [Invoke (1::nat), Frame (5864062014805333 / 140737488355328),
         Invoke 2, Frame (5864062014805333 / 70368744177664)] (rafThrottle, []))))
     = [5864062014805333 / 140737488355328, 5864062014805333 / 70368744177664]
   \<and> (5864062014805333 / 70368744177664 - 5864062014805333 / 140737488355328 :: rat)
     < 1000 / 24
   \<and> map fst (executed (fst (throttle_run_jamboree record_call
        [Invoke (1::nat), Frame 5, Invoke 2, Frame 6] (rafThrottle, []))))
     = [5, 6]"
proof -
  note d = frame_due_follows_the_doubles[THEN conjunct2]
  have a: "snd (throttle_run 60 record_call [Invoke (1::nat), Invoke 2, Frame 100]
      (rafThrottle, [])) = [1]"
    by (simp add: throttle_run_def rafThrottle_def throttled_def animation_frame_def
        raf_callback_def frame_due_60_at_100 record_call_def)
  have b: "map fst (executed (fst (throttle_run 24 record_call
        [Invoke (1::nat), Frame (5864062014805333 / 140737488355328),
         Invoke 2, Frame (5864062014805333 / 70368744177664)] (rafThrottle, []))))
     = [5864062014805333 / 140737488355328, 5864062014805333 / 70368744177664]"
    by (simp add: throttle_run_def rafThrottle_def throttled_def animation_frame_def
        raf_callback_def d[THEN conjunct1] d[THEN conjunct2] record_call_def)
  have c: "map fst (executed (fst (throttle_run_jamboree record_call
        [Invoke (1::nat), Frame 5, Invoke 2, Frame 6] (rafThrottle, []))))
     = [5, 6]"
    by (simp add: throttle_run_jamboree_def rafThrottle_def throttled_def
        animation_frame_jamboree_def raf_callback_jamboree_def record_call_def)
  from a b c show ?thesis by simp
qed

text \<open>A fresh wrapper at 60 fps, invoked with 1, 2 and 3 before the paint at 100 ms.\<close>

theorem throttle_coalesces_to_first_call_witness:
  "requestId (rafThrottle :: nat throttle) = None \<and> rafQueue (rafThrottle :: nat throttle) = []
   \<and> frame_due 60 100 (lastTime (rafThrottle :: nat throttle))
   \<and> throttle_run 60 record_call (map Invoke (1 # [2, 3]) @ [Frame 100]) (rafThrottle, [])
       = (rafThrottle\<lparr> lastTime := 100, executed := [(100, 1::nat)], nextHandle := 2 \<rparr>, [1])"
  using throttle_coalesces_to_first_call[of 60 record_call "[]" "[]::nat list" rafThrottle 1 "[2,3]" 100 "[]"]
  by (simp add: rafThrottle_def frame_due_60_at_100 record_call_def)

subsection \<open>processBatch\<close>

lemma js_slice_window:
  "js_slice xs (int i) (int i + int b) = take b (drop i xs)"
proof (cases "i < length xs")
  case True
  show ?thesis
  proof (cases "i + b \<le> length xs")
    case True
    with \<open>i < length xs\<close> show ?thesis
      by (simp add: js_slice_def Let_def min_def)
  next
    case False
    with \<open>i < length xs\<close> have "nat (min (int i + int b) (int (length xs)) - int i) = length xs - i"
      by (simp add: min_def)
    with False \<open>i < length xs\<close> show ?thesis
      by (simp add: js_slice_def Let_def min_def)
  qed
next
  case False
  then show ?thesis by (simp add: js_slice_def Let_def min_def)
qed

lemma processNext_window:
  "processNext xs (int b) \<lparr> index = int i, slices = S, scheduled = sc \<rparr> =
     \<lparr> index = int (i + b), slices = S @ [take b (drop i xs)],
       scheduled = (i + b < length xs) \<rparr>"
  by (simp add: processNext_def js_slice_window) linarith

lemma batch_after_Suc:
  "batch_after (Suc k) xs bs = batch_frame xs bs (batch_after k xs bs)"
  by (simp add: batch_after_def)

lemma batch_progress:
  assumes "0 < b" and "k * b < length xs"
  shows "batch_after k xs (int b) =
     \<lparr> index = int (Suc k * b), slices = map (window b xs) [0 ..< Suc k],
       scheduled = (Suc k * b < length xs) \<rparr>"
  using assms(2)
proof (induction k)
  case 0
  then have "xs \<noteq> []" by auto
  moreover have "js_slice xs 0 (int b) = take b xs"
    using js_slice_window[of xs 0 b] by simp
  ultimately show ?case
    by (simp add: batch_after_def processBatch_def processNext_def window_def)
next
  case (Suc k)
  then have lt: "k * b < length xs" and lt': "Suc k * b < length xs" by auto
  have "batch_after (Suc k) xs (int b) =
      processNext xs (int b) \<lparr> index = int (Suc k * b), slices = map (window b xs) [0 ..< Suc k],
       scheduled = True \<rparr>"
    using Suc.IH[OF lt] lt' by (simp add: batch_after_Suc batch_frame_def)
  also have "\<dots> = \<lparr> index = int (Suc k * b + b),
       slices = map (window b xs) [0 ..< Suc k] @ [take b (drop (Suc k * b) xs)],
       scheduled = (Suc k * b + b < length xs) \<rparr>"
    by (rule processNext_window)
  also have "Suc k * b + b = Suc (Suc k) * b"
    by simp
  also have "map (window b xs) [0 ..< Suc k] @ [take b (drop (Suc k * b) xs)]
      = map (window b xs) [0 ..< Suc (Suc k)]"
    by (simp add: window_def)
  finally show ?case .
qed

lemma ceil_div_bounds:
  fixes n b :: nat
  assumes "0 < b" and "0 < n"
  shows "((n + b - 1) div b - 1) * b < n" and "n \<le> ((n + b - 1) div b) * b"
    and "0 < (n + b - 1) div b"
proof -
  let ?m = "(n + b - 1) div b"
  have m: "?m * b + (n + b - 1) mod b = n + b - 1" by simp
  have r: "(n + b - 1) mod b < b" using assms(1) by simp
  from m r show "n \<le> ?m * b" by linarith
  from assms show pos: "0 < ?m" by (simp add: div_greater_zero_iff)
  have "?m * b \<le> n + b - 1" using m by linarith
  moreover have "(?m - 1) * b = ?m * b - b" by (simp add: diff_mult_distrib)
  ultimately show "(?m - 1) * b < n" using assms by linarith
qed

lemma fixed_size_slices_window:
  "fixed_size_slices b xs = map (window b xs) [0 ..< (length xs + b - 1) div b]"
  by (simp add: fixed_size_slices_def window_def)

lemma concat_windows: "concat (map (window b xs) [0 ..< m]) = take (m * b) xs"
proof (induction m)
  case 0
  show ?case by simp
next
  case (Suc m)
  have "take (m * b) xs @ take b (drop (m * b) xs) = take (m * b + b) xs"
    by (simp add: take_add)
  with Suc show ?case by (simp add: window_def add.commute)
qed

lemma concat_fixed_size_slices:
  assumes "0 < b" shows "concat (fixed_size_slices b xs) = xs"
proof (cases "xs = []")
  case True
  then show ?thesis by (simp add: fixed_size_slices_def)
next
  case False
  then have "length xs \<le> ((length xs + b - 1) div b) * b"
    using ceil_div_bounds(2)[OF assms, of "length xs"] by simp
  then show ?thesis by (simp add: fixed_size_slices_window concat_windows)
qed

lemma window_full: "Suc j * b \<le> length xs \<Longrightarrow> length (window b xs j) = b"
  by (simp add: window_def min_def, arith)

lemma window_nonempty: "0 < b \<Longrightarrow> j * b < length xs \<Longrightarrow> 0 < length (window b xs j)"
  by (simp add: window_def)

lemma fixed_size_slices_lengths:
  assumes "0 < b"
  shows "\<forall>s \<in> set (butlast (fixed_size_slices b xs)). length s = b"
    and "\<forall>s \<in> set (fixed_size_slices b xs). 0 < length s \<and> length s \<le> b"
proof -
  let ?m = "(length xs + b - 1) div b"
  have bl: "butlast (fixed_size_slices b xs) = map (window b xs) [0 ..< ?m - 1]"
    by (simp add: fixed_size_slices_window map_butlast[symmetric] butlast_conv_take take_map)
  have last_lt: "(?m - 1) * b < length xs" if "xs \<noteq> []"
    using ceil_div_bounds(1)[OF assms, of "length xs"] that by simp
  show "\<forall>s \<in> set (butlast (fixed_size_slices b xs)). length s = b"
  proof
    fix s assume "s \<in> set (butlast (fixed_size_slices b xs))"
    then obtain j where j: "j < ?m - 1" and s: "s = window b xs j" by (auto simp: bl)
    then have ne: "xs \<noteq> []" by (auto simp: assms)
    have "Suc j * b \<le> (?m - 1) * b" using j by (simp add: Suc_leI mult_le_mono1 del: mult_Suc)
    with last_lt[OF ne] show "length s = b" unfolding s by (intro window_full) linarith
  qed
  show "\<forall>s \<in> set (fixed_size_slices b xs). 0 < length s \<and> length s \<le> b"
  proof
    fix s assume "s \<in> set (fixed_size_slices b xs)"
    then obtain j where j: "j < ?m" and s: "s = window b xs j"
      by (auto simp: fixed_size_slices_window)
    then have ne: "xs \<noteq> []" by (auto simp: assms)
    from j have "j \<le> ?m - 1" by linarith
    then have "j * b \<le> (?m - 1) * b" by (rule mult_le_mono1)
    with last_lt[OF ne] have "j * b < length xs" by linarith
    then show "0 < length s \<and> length s \<le> b"
      unfolding s using assms by (simp add: window_def)
  qed
qed

lemma batch_slices_prefix:
  assumes "0 < b" and "k \<le> (length xs + b - 1) div b - 1"
  shows "slices (batch_after k xs (int b)) = take (Suc k) (fixed_size_slices b xs)
    \<and> scheduled (batch_after k xs (int b)) = (k < (length xs + b - 1) div b - 1)"
proof -
  let ?m = "(length xs + b - 1) div b"
  show ?thesis
  proof (cases "xs = []")
    case True
    with assms have k: "k = 0" by simp
    have "slices (batch_after k xs (int b)) = take (Suc k) (fixed_size_slices b xs)"
      using True assms(1) by (simp add: k batch_after_def processBatch_def fixed_size_slices_def)
    moreover have "scheduled (batch_after k xs (int b)) = (k < ?m - 1)"
      using True assms(1) by (simp add: k batch_after_def processBatch_def)
    ultimately show ?thesis by simp
  next
    case False
    then have n: "0 < length xs" by simp
    note bounds = ceil_div_bounds[OF assms(1) n]
    have "k * b \<le> (?m - 1) * b" using assms(2) by (simp add: mult_le_mono1)
    with bounds(1) have kb: "k * b < length xs" by linarith
    note st = batch_progress[OF assms(1) kb]
    have "Suc k \<le> ?m" using assms(2) bounds(3) by linarith
    then have "take (Suc k) (map (window b xs) [0 ..< ?m]) = map (window b xs) [0 ..< Suc k]"
      by (simp add: take_map min_def del: upt_Suc)
    then have A: "slices (batch_after k xs (int b)) = take (Suc k) (fixed_size_slices b xs)"
      by (simp add: st fixed_size_slices_window del: upt_Suc)
    have "(Suc k * b < length xs) = (k < ?m - 1)"
    proof
      assume a: "Suc k * b < length xs"
      show "k < ?m - 1"
      proof (rule ccontr)
        assume "\<not> k < ?m - 1"
        with assms(2) have "k = ?m - 1" by simp
        with bounds(3) have "Suc k = ?m" by simp
        with a bounds(2) show False by simp
      qed
    next
      assume "k < ?m - 1"
      then have "Suc k * b \<le> (?m - 1) * b" by (simp add: Suc_leI mult_le_mono1 del: mult_Suc)
      with bounds(1) show "Suc k * b < length xs" by linarith
    qed
    then have "scheduled (batch_after k xs (int b)) = (k < ?m - 1)" by (simp add: st)
    with A show ?thesis by simp
  qed
qed

lemma batch_frame_idle: "\<not> scheduled st \<Longrightarrow> batch_frame xs bs st = st"
  by (simp add: batch_frame_def)

lemma batch_after_add:
  "batch_after (n + j) xs bs = ((batch_frame xs bs) ^^ j) (batch_after n xs bs)"
  by (simp add: batch_after_def funpow_add add.commute)

lemma batch_finished_stays:
  assumes "\<not> scheduled (batch_after n xs bs)"
  shows "batch_after (n + j) xs bs = batch_after n xs bs"
  unfolding batch_after_add using assms
  by (induction j) (simp_all add: batch_frame_idle)

text \<open>
  C6, amended. For every finite input and every batch size \<open>b \<ge> 1\<close>: the call itself
  processes the first slice only, each later paint processes exactly the next slice
  (after \<open>k\<close> paints the slices handed to the processor are the first \<open>k + 1\<close> of the
  fixed-size slices of the input), another paint is scheduled exactly while slices
  remain, and once the last slice is done nothing more happens. The slices concatenate to
  the input, so every item is visited exactly once and in input order; every slice but the
  last has \<open>b\<close> items and the last has between 1 and \<open>b\<close>.
\<close>

theorem batch_fixed_size_slices_in_order:
  assumes "0 < b"
  shows "(\<forall>k \<le> (length xs + b - 1) div b - 1.
            slices (batch_after k xs (int b)) = take (Suc k) (fixed_size_slices b xs)
            \<and> scheduled (batch_after k xs (int b)) = (k < (length xs + b - 1) div b - 1))
    \<and> (\<forall>j. batch_after ((length xs + b - 1) div b - 1 + j) xs (int b)
             = batch_after ((length xs + b - 1) div b - 1) xs (int b))
    \<and> slices (batch_after ((length xs + b - 1) div b - 1) xs (int b)) = fixed_size_slices b xs
    \<and> concat (fixed_size_slices b xs) = xs
    \<and> (\<forall>s \<in> set (butlast (fixed_size_slices b xs)). length s = b)
    \<and> (\<forall>s \<in> set (fixed_size_slices b xs). 0 < length s \<and> length s \<le> b)"
proof -
  let ?n = "(length xs + b - 1) div b - 1"
  have fin: "slices (batch_after ?n xs (int b)) = take (Suc ?n) (fixed_size_slices b xs)"
    and idle: "\<not> scheduled (batch_after ?n xs (int b))"
    using batch_slices_prefix[OF assms, of ?n xs] by simp_all
  have "length (fixed_size_slices b xs) \<le> Suc ?n"
    by (simp add: fixed_size_slices_def)
  with fin have all: "slices (batch_after ?n xs (int b)) = fixed_size_slices b xs"
    by simp
  have 1: "\<forall>k \<le> ?n. slices (batch_after k xs (int b)) = take (Suc k) (fixed_size_slices b xs)
            \<and> scheduled (batch_after k xs (int b)) = (k < ?n)"
    using batch_slices_prefix[OF assms, of _ xs] by simp
  have 2: "\<forall>j. batch_after (?n + j) xs (int b) = batch_after ?n xs (int b)"
    using batch_finished_stays[OF idle] by simp
  from 1 2 all concat_fixed_size_slices[OF assms, of xs] fixed_size_slices_lengths[OF assms, of xs]
  show ?thesis by (intro conjI)
qed

text \<open>Seven items in batches of three: one slice at the call, three after two paints.\<close>

theorem batch_fixed_size_slices_in_order_witness:
  "(0::nat) < 3
   \<and> slices (batch_after 0 [1, 2, 3, 4, 5, 6, 7 :: nat] 3) = [ [1, 2, 3] ]
   \<and> scheduled (batch_after 0 [1, 2, 3, 4, 5, 6, 7 :: nat] 3)
   \<and> slices (batch_after 2 [1, 2, 3, 4, 5, 6, 7 :: nat] 3) = [ [1, 2, 3], [4, 5, 6], [7] ]
   \<and> \<not> scheduled (batch_after 2 [1, 2, 3, 4, 5, 6, 7 :: nat] 3)
   \<and> concat (slices (batch_after 2 [1, 2, 3, 4, 5, 6, 7 :: nat] 3)) = [1, 2, 3, 4, 5, 6, 7]"
proof -
  define xs where "xs = [1, 2, 3, 4, 5, 6, 7 :: nat]"
  have h: "(0::nat) < 3" by simp
  have n: "(length xs + 3 - 1) div 3 - 1 = 2" by (simp add: xs_def)
  have f: "fixed_size_slices 3 xs = [ [1, 2, 3], [4, 5, 6], [7] ]"
    by (simp add: xs_def fixed_size_slices_def upt_rec)
  have i: "int 3 = 3" by simp
  note t = batch_fixed_size_slices_in_order[OF h, of xs, unfolded n f i]
  from t have all: "\<forall>k\<le>2. slices (batch_after k xs 3) = take (Suc k) [ [1, 2, 3], [4, 5, 6], [7] ]
      \<and> scheduled (batch_after k xs 3) = (k < 2)"
    by (rule conjunct1)
  from all have a: "slices (batch_after 0 xs 3) = [ [1, 2, 3] ] \<and> scheduled (batch_after 0 xs 3)"
    by (drule_tac x = 0 in spec) simp
  from all have b: "slices (batch_after 2 xs 3) = [ [1, 2, 3], [4, 5, 6], [7] ]
      \<and> \<not> scheduled (batch_after 2 xs 3)"
    by (drule_tac x = 2 in spec) simp
  from a b h show ?thesis unfolding xs_def by simp
qed

text \<open>
  C6 as stated, for every batch size, fails. With batch size 0 every slice is empty, the
  index never advances and \<^verbatim>\<open>processNext\<close> reschedules itself on every paint: after
  five paints no item has been visited and another paint is pending. With batch size
  \<open>-1\<close> the first slice is \<^verbatim>\<open>items.slice(0, -1)\<close>, two items of three, and the
  third is never visited.
\<close>

theorem batch_size_not_positive_counterexample:
  "concat (slices (batch_after 5 [1, 2, 3 :: nat] 0)) = []
   \<and> scheduled (batch_after 5 [1, 2, 3 :: nat] 0)
   \<and> slices (batch_after 0 [1, 2, 3 :: nat] (- 1)) = [ [1, 2] ]
   \<and> concat (slices (batch_after 5 [1, 2, 3 :: nat] (- 1))) = [1, 2]
   \<and> scheduled (batch_after 5 [1, 2, 3 :: nat] (- 1))"
  by (simp add: batch_after_def eval_nat_numeral batch_frame_def processBatch_def processNext_def js_slice_def)

subsection \<open>Navigation menu\<close>

lemma openNav_tracks: "attr_tracks_flag m \<Longrightarrow> attr_tracks_flag (openNav els m)"
  by (simp add: attr_tracks_flag_def openNav_def)

lemma closeNav_tracks: "attr_tracks_flag m \<Longrightarrow> attr_tracks_flag (closeNav els m)"
  by (simp add: attr_tracks_flag_def closeNav_def)

lemma toggle_tracks: "attr_tracks_flag m \<Longrightarrow> attr_tracks_flag (toggle els ev m)"
  by (simp add: toggle_def openNav_tracks closeNav_tracks)

lemma raf_callback_snd:
  "(\<And>a s. P s \<Longrightarrow> P (cb a s)) \<Longrightarrow> P (snd st) \<Longrightarrow> P (snd (raf_callback fps cb t a st))"
  by (cases st) (simp add: raf_callback_def)

lemma raf_callback_jamboree_snd:
  "(\<And>a s. P s \<Longrightarrow> P (cb a s)) \<Longrightarrow> P (snd st) \<Longrightarrow> P (snd (raf_callback_jamboree cb t a st))"
  by (cases st) (simp add: raf_callback_jamboree_def)

lemma animation_frame_snd:
  assumes "\<And>a s. P s \<Longrightarrow> P (cb a s)" and "P (snd st)"
  shows "P (snd (animation_frame fps cb t st))"
proof -
  obtain th s where st: "st = (th, s)" by (cases st)
  have step: "P (snd ((\<lambda>(h, args). raf_callback fps cb t args) x st'))" if "P (snd st')" for x st'
    using that by (cases x) (simp add: raf_callback_snd[of P, OF assms(1)])
  have "P (snd (fold (\<lambda>(h, args). raf_callback fps cb t args) q st'))" if "P (snd st')" for q st'
    by (rule fold_preserves[where P = "\<lambda>st. P (snd st)"]) (simp_all add: step that)
  from this[of "(th\<lparr>rafQueue := []\<rparr>, s)" "rafQueue th"] assms(2)
  show ?thesis unfolding animation_frame_def st by simp
qed

lemma animation_frame_jamboree_snd:
  assumes "\<And>a s. P s \<Longrightarrow> P (cb a s)" and "P (snd st)"
  shows "P (snd (animation_frame_jamboree cb t st))"
proof -
  obtain th s where st: "st = (th, s)" by (cases st)
  have step: "P (snd ((\<lambda>(h, args). raf_callback_jamboree cb t args) x st'))" if "P (snd st')" for x st'
    using that by (cases x) (simp add: raf_callback_jamboree_snd[of P, OF assms(1)])
  have "P (snd (fold (\<lambda>(h, args). raf_callback_jamboree cb t args) q st'))" if "P (snd st')" for q st'
    by (rule fold_preserves[where P = "\<lambda>st. P (snd st)"]) (simp_all add: step that)
  from this[of "(th\<lparr>rafQueue := []\<rparr>, s)" "rafQueue th"] assms(2)
  show ?thesis unfolding animation_frame_jamboree_def st by simp
qed

lemma menu_step_tracks:
  "attr_tracks_flag (snd st) \<Longrightarrow> attr_tracks_flag (snd (menu_step els ev st))"
  by (cases ev) (auto intro: animation_frame_snd toggle_tracks closeNav_tracks)

lemma menu_step_jamboree_tracks:
  "attr_tracks_flag (snd st) \<Longrightarrow> attr_tracks_flag (snd (menu_step_jamboree els ev st))"
  by (cases ev) (auto intro: animation_frame_jamboree_snd toggle_tracks closeNav_tracks)

lemma initMenu_tracks:
  "initialDataNav els \<noteq> Some ''open'' \<Longrightarrow> attr_tracks_flag (initMenu els)"
  by (simp add: attr_tracks_flag_def initMenu_def)

lemma menu_run_tracks:
  "initialDataNav els \<noteq> Some ''open'' \<Longrightarrow> attr_tracks_flag (snd (menu_run els evs))"
  unfolding menu_run_def
  by (rule fold_preserves[where P = "\<lambda>st. attr_tracks_flag (snd st)"])
     (simp_all add: menu_step_tracks initMenu_tracks)

lemma menu_run_jamboree_tracks:
  "initialDataNav els \<noteq> Some ''open'' \<Longrightarrow> attr_tracks_flag (snd (menu_run_jamboree els evs))"
  unfolding menu_run_jamboree_def
  by (rule fold_preserves[where P = "\<lambda>st. attr_tracks_flag (snd st)"])
     (simp_all add: menu_step_jamboree_tracks initMenu_tracks)

text \<open>
  C10. Starting from the closed state (the nav wrapper does not carry
  \<^verbatim>\<open>data-nav="open"\<close> when \<^verbatim>\<open>initMenu\<close> runs), after any sequence of toggle
  clicks, paints and keydown events the \<^verbatim>\<open>data-nav\<close> attribute equals "open" exactly
  when \<open>isOpen\<close> is true, in script.js and in jamboree.js alike; and an Escape press
  while the menu is closed leaves the whole state as it was (attribute, flag, timeline and
  the throttle's closure).
\<close>

theorem menu_attribute_tracks_flag:
  assumes "initialDataNav els \<noteq> Some ''open''"
  shows "((dataNav (snd (menu_run els evs)) = Some ''open'') = isOpen (snd (menu_run els evs)))
    \<and> ((dataNav (snd (menu_run_jamboree els evs)) = Some ''open'')
         = isOpen (snd (menu_run_jamboree els evs)))
    \<and> (\<not> isOpen (snd (menu_run els evs)) \<longrightarrow>
         menu_run els (evs @ [Keydown ''Escape'']) = menu_run els evs)
    \<and> (\<not> isOpen (snd (menu_run_jamboree els evs)) \<longrightarrow>
         menu_run_jamboree els (evs @ [Keydown ''Escape'']) = menu_run_jamboree els evs)"
  using menu_run_tracks[OF assms, of evs] menu_run_jamboree_tracks[OF assms, of evs]
  by (simp add: attr_tracks_flag_def menu_run_def menu_run_jamboree_def)

text \<open>The invariant at work on \<open>example_menu\<close>: a click and a paint open the menu, Escape
  closes it, and a second Escape changes nothing.\<close>

theorem menu_attribute_tracks_flag_witness:
  "initialDataNav example_menu \<noteq> Some ''open''
   \<and> isOpen (snd (menu_run example_menu [Click, AnimationFrame 1000]))
   \<and> dataNav (snd (menu_run example_menu [Click, AnimationFrame 1000])) = Some ''open''
   \<and> \<not> isOpen (snd (menu_run example_menu [Click, AnimationFrame 1000, Keydown ''Escape'']))
   \<and> menu_run example_menu ([Click, AnimationFrame 1000, Keydown ''Escape''] @ [Keydown ''Escape''])
       = menu_run example_menu [Click, AnimationFrame 1000, Keydown ''Escape'']"
proof -
  have h: "initialDataNav example_menu \<noteq> Some ''open''" by (simp add: example_menu_def)
  have o: "isOpen (snd (menu_run example_menu [Click, AnimationFrame 1000]))"
    by (simp add: menu_run_def example_menu_def rafThrottle_def initMenu_def throttled_def
        animation_frame_def raf_callback_def frame_due_30_at_1000 toggle_def openNav_def)
  have c: "\<not> isOpen (snd (menu_run example_menu [Click, AnimationFrame 1000, Keydown ''Escape'']))"
    by (simp add: menu_run_def example_menu_def rafThrottle_def initMenu_def throttled_def
        animation_frame_def raf_callback_def frame_due_30_at_1000 toggle_def openNav_def
        closeNav_def)
  show ?thesis
    using h o c menu_attribute_tracks_flag[OF h, of "[Click, AnimationFrame 1000]"]
      menu_attribute_tracks_flag[OF h, of "[Click, AnimationFrame 1000, Keydown ''Escape'']"]
    by simp
qed

text \<open>
  C5 as stated fails. The toggle handler is the throttled wrapper: a second click that
  arrives while the first one's frame callback is still pending is dropped, and so is a
  second click whose paint comes less than \<open>1000 / 30\<close> ms after the first toggle ran
  (here 16 ms). Either way only one toggle runs and the menu ends open.
\<close>

theorem rapid_double_toggle_counterexample:
  "isOpen (snd (menu_run example_menu [Click, Click, AnimationFrame 1000]))
   \<and> dataNav (snd (menu_run example_menu [Click, Click, AnimationFrame 1000])) = Some ''open''
   \<and> isOpen (snd (menu_run example_menu [Click, AnimationFrame 1000, Click, AnimationFrame 1016]))"
  by (simp add: menu_run_def example_menu_def rafThrottle_def initMenu_def throttled_def
        animation_frame_def raf_callback_def frame_due_30_at_1000 not_frame_due_30_after_16
        toggle_def openNav_def closeNav_def)

text \<open>
  C5, amended. Starting from the closed state, when both toggles run (the first click's
  paint comes at least \<open>1000 / 30\<close> ms after time 0, the second click arrives after that
  paint, and its own paint comes at least \<open>1000 / 30\<close> ms later), the first transition
  is \<open>openNav\<close> and leaves the shared timeline holding the opening steps only, and the
  second is \<open>closeNav\<close>: the menu ends closed (flag, \<^verbatim>\<open>data-nav\<close>, button class,
  ARIA label), and the one shared timeline, cleared before the closing steps were added,
  holds the closing steps only, however far the opening animation had come.
\<close>

theorem two_executed_toggles_close:
  assumes "1000 / 30 \<le> t1" and "1000 / 30 \<le> t2 - t1"
  shows "snd (menu_run els [Click, AnimationFrame t1]) = openNav els (initMenu els)
    \<and> tl (snd (menu_run els [Click, AnimationFrame t1])) = open_steps els
    \<and> snd (menu_run els [Click, AnimationFrame t1, Click, AnimationFrame t2])
        = closeNav els (openNav els (initMenu els))
    \<and> snd (menu_run els [Click, AnimationFrame t1, Click, AnimationFrame t2])
        = \<lparr> isOpen = False, dataNav = Some ''closed'',
            buttonIsOpened = (if hasMenuButton els then False else initialIsOpened els),
            ariaLabel = (if hasMenuButton els then Some ''Open menu'' else None),
            tl = close_steps els \<rparr>"
proof -
  from assms(1) have d1: "frame_due 30 t1 0" by (intro frame_due_exact) simp_all
  from assms(2) have d2: "frame_due 30 t2 t1" by (intro frame_due_exact) simp_all
  show ?thesis
    by (simp add: menu_run_def rafThrottle_def initMenu_def throttled_def
        animation_frame_def raf_callback_def d1 d2 toggle_def openNav_def closeNav_def)
qed

text \<open>Paints at 1000 ms and 1050 ms on \<open>example_menu\<close>.\<close>

theorem two_executed_toggles_close_witness:
  "(1000::rat) / 30 \<le> 1000 \<and> (1000::rat) / 30 \<le> 1050 - 1000
   \<and> snd (menu_run example_menu [Click, AnimationFrame 1000, Click, AnimationFrame 1050])
       = \<lparr> isOpen = False, dataNav = Some ''closed'', buttonIsOpened = False,
           ariaLabel = Some ''Open menu'',
           tl = [Tween TlTo ''overlay'' [], Tween TlTo ''menu'' ''<'',
                 Tween TlTo ''menuButton.texts'' ''<'', Tween TlTo ''menuButton.icon'' ''<'',
                 Tween TlSet ''navWrap'' [] ] \<rparr>"
proof -
  have h1: "(1000::rat) / 30 \<le> 1000" and h2: "(1000::rat) / 30 \<le> 1050 - 1000" by simp_all
  have r: "snd (menu_run example_menu [Click, AnimationFrame 1000, Click, AnimationFrame 1050])
        = \<lparr> isOpen = False, dataNav = Some ''closed'',
            buttonIsOpened = (if hasMenuButton example_menu then False
                              else initialIsOpened example_menu),
            ariaLabel = (if hasMenuButton example_menu then Some ''Open menu'' else None),
            tl = close_steps example_menu \<rparr>"
    using two_executed_toggles_close[OF h1 h2, of example_menu] by (elim conjE)
  show ?thesis unfolding r by (simp add: example_menu_def close_steps_def)
qed

subsection \<open>Text reveal\<close>

text \<open>
  C7. With \<open>reducedMotion\<close> set in the capability descriptor, every call of the
  text-reveal helpers, heading and paragraph variant, of script.js and of jamboree.js,
  adds at most one step to the timeline: the fade of the element (or of the collection of
  paragraphs) itself from opacity 0 and 20 pixels down, over half a second, at the
  position asked for. It returns \<^verbatim>\<open>null\<close> and leaves the record of
  \<^verbatim>\<open>SplitText.create\<close> calls, the split cache and the classes as they were: the
  text is never split. A call without an element, or with an empty collection, does
  nothing at all.
\<close>

theorem reduced_motion_fades_without_split:
  assumes "reducedMotion cfg"
  shows "splitHeading ST cfg None delay st = (None, st)
    \<and> splitHeading ST cfg (Some el) delay st
        = (None, st\<lparr> timeline_steps := timeline_steps st
             @ [From (One el) [(''opacity'', NumV 0), (''y'', NumV 20),
                               (''duration'', NumV (1 / 2))] delay] \<rparr>)
    \<and> split_calls (snd (splitHeading ST cfg element delay st)) = split_calls st
    \<and> splitParagraph ST cfg mobile None delay st = (None, st)
    \<and> splitParagraph ST cfg mobile (Some []) delay st = (None, st)
    \<and> splitParagraph ST cfg mobile (Some (e # es)) delay st
        = (None, st\<lparr> timeline_steps := timeline_steps st
             @ [From (Many (e # es)) [(''opacity'', NumV 0), (''y'', NumV 20),
                                      (''duration'', NumV (1 / 2))] delay] \<rparr>)
    \<and> split_calls (snd (splitParagraph ST cfg mobile elements delay st)) = split_calls st
    \<and> splitHeading_jamboree ST cfg None delay st = (None, st)
    \<and> splitHeading_jamboree ST cfg (Some el) delay st
        = (None, st\<lparr> timeline_steps := timeline_steps st
             @ [From (One el) [(''opacity'', NumV 0), (''y'', NumV 20),
                               (''duration'', NumV (1 / 2))] delay] \<rparr>)
    \<and> split_calls (snd (splitHeading_jamboree ST cfg element delay st)) = split_calls st
    \<and> splitParagraph_jamboree ST cfg mobile None delay st = (None, st)
    \<and> splitParagraph_jamboree ST cfg mobile (Some []) delay st = (None, st)
    \<and> splitParagraph_jamboree ST cfg mobile (Some (e # es)) delay st
        = (None, st\<lparr> timeline_steps := timeline_steps st
             @ [From (Many (e # es)) [(''opacity'', NumV 0), (''y'', NumV 20),
                                      (''duration'', NumV (1 / 2))] delay] \<rparr>)
    \<and> split_calls (snd (splitParagraph_jamboree ST cfg mobile elements delay st)) = split_calls st"
  using assms
  by (simp add: splitHeading_def splitParagraph_def splitHeading_jamboree_def
      splitParagraph_jamboree_def isLowEndDevice_def timeline_from_def fade_vars_def
      split: option.split list.split)

text \<open>A heading and two paragraphs under the reduced-motion descriptor: one fade each,
  with the literal parameters of the source, and no split.\<close>

theorem reduced_motion_fades_without_split_witness:
  "reducedMotion reduced_motion_config
   \<and> splitHeading example_split reduced_motion_config (Some 4) (68 / 100) example_reveal
       = (None, example_reveal\<lparr> timeline_steps :=
            [From (One 4) [(''opacity'', NumV 0), (''y'', NumV 20),
                           (''duration'', NumV (1 / 2))] (68 / 100)] \<rparr>)
   \<and> splitParagraph example_split reduced_motion_config False (Some [5, 6]) 1 example_reveal
       = (None, example_reveal\<lparr> timeline_steps :=
            [From (Many [5, 6]) [(''opacity'', NumV 0), (''y'', NumV 20),
                                 (''duration'', NumV (1 / 2))] 1] \<rparr>)
   \<and> split_calls (snd (splitParagraph_jamboree example_split reduced_motion_config False
        (Some [5, 6]) 1 example_reveal)) = []"
proof -
  have h: "reducedMotion reduced_motion_config" by (simp add: reduced_motion_config_def)
  have e: "timeline_steps example_reveal = []" "split_calls example_reveal = []"
    by (simp_all add: example_reveal_def)
  note t1 = reduced_motion_fades_without_split[OF h, where ST = example_split and el = 4
      and delay = "68 / 100" and st = example_reveal]
  note t2 = reduced_motion_fades_without_split[OF h, where ST = example_split and e = 5
      and es = "[6]" and elements = "Some [5, 6]" and mobile = False and delay = 1
      and st = example_reveal]
  from t1 have a: "splitHeading example_split reduced_motion_config (Some 4) (68 / 100)
      example_reveal
      = (None, example_reveal\<lparr> timeline_steps :=
           [From (One 4) [(''opacity'', NumV 0), (''y'', NumV 20),
                          (''duration'', NumV (1 / 2))] (68 / 100)] \<rparr>)"
    by (simp add: e)
  from t2 have b: "splitParagraph example_split reduced_motion_config False (Some [5, 6]) 1
      example_reveal
      = (None, example_reveal\<lparr> timeline_steps :=
           [From (Many [5, 6]) [(''opacity'', NumV 0), (''y'', NumV 20),
                                (''duration'', NumV (1 / 2))] 1] \<rparr>)"
    by (simp add: e)
  from t2 have c: "split_calls (snd (splitParagraph_jamboree example_split
      reduced_motion_config False (Some [5, 6]) 1 example_reveal)) = []"
    by (simp add: e)
  from h a b c show ?thesis by simp
qed

subsection \<open>Section initializers\<close>

lemmas init_defs = set_visible_def gsap_timeline_def run_handler_def cache_animations_set_def
  unobserve_def Let_def

lemma setupScrollTrigger_cached:
  "cache_animations s el = Some h \<Longrightarrow> setupScrollTrigger el c s = s"
  by (simp add: setupScrollTrigger_def)

lemma setupAnimation_cached:
  "cache_animations s el = Some h \<Longrightarrow> setupAnimation el c s = s"
  by (simp add: setupAnimation_def)

lemma setupScrollTrigger_fresh:
  assumes "cache_animations s el = None"
  shows "cache_animations (setupScrollTrigger el c s) = (cache_animations s)(el \<mapsto> length (gsap_timelines s))"
    and "length (gsap_timelines (setupScrollTrigger el c s)) = Suc (length (gsap_timelines s))"
    and "visibility (setupScrollTrigger el c s) el = Some ''visible''"
  using assms by (simp_all add: setupScrollTrigger_def init_defs)

lemma setupAnimation_fresh:
  assumes "cache_animations s el = None"
  shows "cache_animations (setupAnimation el c s) = (cache_animations s)(el \<mapsto> length (gsap_timelines s))"
    and "length (gsap_timelines (setupAnimation el c s)) = Suc (length (gsap_timelines s))"
    and "visibility (setupAnimation el c s) el = Some ''visible''"
  using assms by (simp_all add: setupAnimation_def init_defs)

lemma observer_entry_skip:
  "\<not> isIntersecting e \<or> cache_animations s (target e) \<noteq> None
   \<Longrightarrow> observer_entry H inh obs e s = (s, None)"
  by (auto simp: observer_entry_def)

lemma observer_entry_registered:
  assumes "isIntersecting e" and "cache_animations s (target e) = None"
    and "trigger_key s (target e) \<in> set registered_kinds"
  shows "cache_animations (fst (observer_entry H inh obs e s))
           = (cache_animations s)(target e \<mapsto> length (gsap_timelines s))"
    and "length (gsap_timelines (fst (observer_entry H inh obs e s))) = Suc (length (gsap_timelines s))"
    and "snd (observer_entry H inh obs e s) = None"
    and "visibility (fst (observer_entry H inh obs e s)) (target e) = Some ''visible''"
    and "animationTrigger (fst (observer_entry H inh obs e s)) = animationTrigger s"
  using assms by (simp_all add: observer_entry_def animationMap_def init_defs)

text \<open>No initialization attempt removes or replaces a cache entry.\<close>

lemma setupScrollTrigger_keeps:
  "cache_animations s el = Some h \<Longrightarrow> cache_animations (setupScrollTrigger el' c s) el = Some h"
  by (auto simp: setupScrollTrigger_def init_defs)

lemma setupAnimation_keeps:
  "cache_animations s el = Some h \<Longrightarrow> cache_animations (setupAnimation el' c s) el = Some h"
  by (auto simp: setupAnimation_def init_defs)

lemma observer_entry_keeps:
  "cache_animations s el = Some h \<Longrightarrow> cache_animations (fst (observer_entry H inh obs e s)) el = Some h"
  by (auto simp: observer_entry_def init_defs split: property.split)

lemma observer_callback_keeps:
  "cache_animations s el = Some h \<Longrightarrow> cache_animations (fst (observer_callback H inh obs es s)) el = Some h"
proof (induction es arbitrary: s)
  case Nil
  then show ?case by simp
next
  case (Cons e es)
  obtain s' r where o: "observer_entry H inh obs e s = (s', r)" by (cases "observer_entry H inh obs e s")
  with Cons.prems observer_entry_keeps[of s el h H inh obs e]
  have k: "cache_animations s' el = Some h" by simp
  show ?case
  proof (cases r)
    case None
    with o Cons.IH[OF k] show ?thesis by simp
  next
    case (Some err)
    with o k show ?thesis by simp
  qed
qed

lemma attempt_step_keeps:
  "cache_animations s el = Some h \<Longrightarrow> cache_animations (attempt_step H inh a s) el = Some h"
  by (cases a) (simp_all add: setupScrollTrigger_keeps setupAnimation_keeps observer_callback_keeps)

lemma attempts_keep:
  "cache_animations s el = Some h \<Longrightarrow> cache_animations (attempts H inh as s) el = Some h"
  unfolding attempts_def
  by (rule fold_preserves[where P = "\<lambda>s. cache_animations s el = Some h"])
     (simp_all add: attempt_step_keeps)

text \<open>
  C1. A second initialization of a section is a no-op, for \<^verbatim>\<open>setupScrollTrigger\<close>
  (script.js) and \<^verbatim>\<open>setupAnimation\<close> (jamboree.js) with any two configurations, and
  for the observer callback on an intersecting entry of a registered kind. Starting with
  the section not yet cached, two attempts leave the cache with the one new entry for that
  section, pointing at the timeline the first attempt constructed, and exactly one
  timeline has been constructed. Once a section has its entry, no later initialization
  attempt by any route, for this or any other section, removes or replaces it.
\<close>

theorem second_initialization_is_noop:
  "setupScrollTrigger el c2 (setupScrollTrigger el c1 s) = setupScrollTrigger el c1 s
   \<and> setupAnimation el c2 (setupAnimation el c1 s) = setupAnimation el c1 s
   \<and> (cache_animations s el = None \<longrightarrow>
        cache_animations (setupScrollTrigger el c2 (setupScrollTrigger el c1 s))
          = (cache_animations s)(el \<mapsto> length (gsap_timelines s))
        \<and> length (gsap_timelines (setupScrollTrigger el c2 (setupScrollTrigger el c1 s)))
          = Suc (length (gsap_timelines s))
        \<and> cache_animations (setupAnimation el c2 (setupAnimation el c1 s))
          = (cache_animations s)(el \<mapsto> length (gsap_timelines s))
        \<and> length (gsap_timelines (setupAnimation el c2 (setupAnimation el c1 s)))
          = Suc (length (gsap_timelines s)))
   \<and> (isIntersecting e \<and> target e = el \<and> cache_animations s el = None
        \<and> trigger_key s el \<in> set registered_kinds \<longrightarrow>
        observer_entry H inh obs e (fst (observer_entry H inh obs e s))
          = (fst (observer_entry H inh obs e s), None)
        \<and> cache_animations (fst (observer_entry H inh obs e s))
          = (cache_animations s)(el \<mapsto> length (gsap_timelines s))
        \<and> length (gsap_timelines (fst (observer_entry H inh obs e s)))
          = Suc (length (gsap_timelines s)))
   \<and> (cache_animations s el = Some h \<longrightarrow>
        cache_animations (attempts H inh as s) el = Some h)"
proof -
  have 1: "setupScrollTrigger el c2 (setupScrollTrigger el c1 s) = setupScrollTrigger el c1 s"
  proof (cases "cache_animations s el")
    case None
    then show ?thesis
      by (intro setupScrollTrigger_cached[of _ _ "length (gsap_timelines s)"])
         (simp add: setupScrollTrigger_fresh)
  next
    case (Some h)
    then show ?thesis by (simp add: setupScrollTrigger_cached)
  qed
  have 2: "setupAnimation el c2 (setupAnimation el c1 s) = setupAnimation el c1 s"
  proof (cases "cache_animations s el")
    case None
    then show ?thesis
      by (intro setupAnimation_cached[of _ _ "length (gsap_timelines s)"])
         (simp add: setupAnimation_fresh)
  next
    case (Some h)
    then show ?thesis by (simp add: setupAnimation_cached)
  qed
  have 3: "observer_entry H inh obs e (fst (observer_entry H inh obs e s))
          = (fst (observer_entry H inh obs e s), None)"
    if "isIntersecting e" "target e = el" "cache_animations s el = None"
       "trigger_key s el \<in> set registered_kinds"
    using that observer_entry_registered(1)[of e s H inh obs]
    by (intro observer_entry_skip) simp
  show ?thesis
    unfolding 1 2
    using 3 observer_entry_registered(1,2)[of e s H inh obs]
    by (auto simp: setupScrollTrigger_fresh setupAnimation_fresh attempts_keep)
qed

text \<open>On \<open>example_session\<close>: the CTA section (element 9) is initialized twice and gets
  timeline 2, the third ever constructed, by either route; the FAQ section keeps
  timeline 1 through further attempts.\<close>

theorem second_initialization_is_noop_witness:
  "cache_animations example_session 9 = None
   \<and> cache_animations (setupScrollTrigger 9 example_config
        (setupScrollTrigger 9 example_config example_session)) 9 = Some 2
   \<and> length (gsap_timelines (setupScrollTrigger 9 example_config
        (setupScrollTrigger 9 example_config example_session))) = 3
   \<and> isIntersecting \<lparr> target = 9, isIntersecting = True \<rparr>
   \<and> trigger_key example_session 9 \<in> set registered_kinds
   \<and> cache_animations (fst (observer_entry example_handlers example_inherited 0
        \<lparr> target = 9, isIntersecting = True \<rparr> example_session)) 9 = Some 2
   \<and> cache_animations example_session 7 = Some 1
   \<and> cache_animations (attempts example_handlers example_inherited
        [ViaScrollTrigger 7 example_config,
         ViaObserver 0 [\<lparr> target = 9, isIntersecting = True \<rparr>],
         ViaAnimation 9 example_config] example_session) 7 = Some 1"
proof -
  let ?e = "\<lparr> target = 9, isIntersecting = True \<rparr>"
  have fresh: "cache_animations example_session 9 = None"
    and cached: "cache_animations example_session 7 = Some 1"
    and n: "length (gsap_timelines example_session) = 2"
    and k: "trigger_key example_session 9 \<in> set registered_kinds"
    by (simp_all add: example_session_def trigger_key_def registered_kinds_def)
  note t9 = second_initialization_is_noop[of 9 example_config example_config example_session
      ?e example_handlers example_inherited 0 1 "[]"]
  note t7 = second_initialization_is_noop[of 7 example_config example_config example_session
      ?e example_handlers example_inherited 0 1
      "[ViaScrollTrigger 7 example_config, ViaObserver 0 [?e], ViaAnimation 9 example_config]"]
  have hyp: "isIntersecting ?e \<and> target ?e = 9 \<and> cache_animations example_session 9 = None
      \<and> trigger_key example_session 9 \<in> set registered_kinds"
    using fresh k by simp
  note p = t9[THEN conjunct2, THEN conjunct2, THEN conjunct1, THEN mp, OF fresh, unfolded n]
  note q = t9[THEN conjunct2, THEN conjunct2, THEN conjunct2, THEN conjunct1, THEN mp, OF hyp,
      unfolded n]
  note r = t7[THEN conjunct2, THEN conjunct2, THEN conjunct2, THEN conjunct2, THEN mp, OF cached]
  from p have a:
    "cache_animations (setupScrollTrigger 9 example_config
        (setupScrollTrigger 9 example_config example_session)) 9 = Some 2
     \<and> length (gsap_timelines (setupScrollTrigger 9 example_config
        (setupScrollTrigger 9 example_config example_session))) = 3"
    by simp
  from q have b:
    "cache_animations (fst (observer_entry example_handlers example_inherited 0 ?e
        example_session)) 9 = Some 2"
    by simp
  note c = r
  from fresh cached k a b c show ?thesis by simp
qed

text \<open>
  C2 as stated fails. In the observer callback the visibility style is set, and the
  section is unobserved, only inside \<^verbatim>\<open>if (handler) { ... }\<close>. For the watched
  element 8 of \<open>example_session\<close>, whose kind \<^verbatim>\<open>carousel\<close> is not registered, an
  intersecting entry leaves the visibility style unset and the element registered.
\<close>

theorem unknown_kind_stays_hidden_counterexample:
  "trigger_key example_session 8 \<notin> set registered_kinds
   \<and> visibility (fst (observer_callback (\<lambda>k el. []) (\<lambda>n. None) 0
        [\<lparr> target = 8, isIntersecting = True \<rparr>] example_session)) 8 \<noteq> Some ''visible''
   \<and> io_targets (fst (observer_callback (\<lambda>k el. []) (\<lambda>n. None) 0
        [\<lparr> target = 8, isIntersecting = True \<rparr>] example_session)) = [ [8, 9] ]"
  by (simp add: observer_entry_def animationMap_def trigger_key_def example_session_def
      registered_kinds_def)

text \<open>
  C2, amended. For a section whose kind is not a property of the handler registry, the
  observer callback is a non-fatal no-op in the full sense: it does not throw and the
  session is exactly as before (visibility style untouched, no timeline constructed,
  nothing cached, the observer's registrations unchanged), for one entry and for any
  list of such entries. And \<^verbatim>\<open>initIntersectionObserverAnimations\<close> never registers
  a section whose kind is not one of the twelve registered kinds with the new observer.
\<close>

theorem unknown_kind_is_ignored:
  "(animationMap H inh (trigger_key s (target e)) = NoProperty \<longrightarrow>
      observer_entry H inh obs e s = (s, None))
   \<and> ((\<forall>e \<in> set es. animationMap H inh (trigger_key s (target e)) = NoProperty) \<longrightarrow>
      observer_callback H inh obs es s = (s, None))
   \<and> (trigger_key s el \<notin> set registered_kinds \<longrightarrow>
      el \<notin> set (last (io_targets (initIntersectionObserverAnimations document s))))"
proof -
  have 1: "observer_entry H inh obs e s = (s, None)"
    if "animationMap H inh (trigger_key s (target e)) = NoProperty" for e
    using that by (simp add: observer_entry_def)
  have 2: "observer_callback H inh obs es s = (s, None)"
    if "\<forall>e \<in> set es. animationMap H inh (trigger_key s (target e)) = NoProperty"
    using that by (induction es) (simp_all add: 1)
  have 3: "el \<notin> set (last (io_targets (initIntersectionObserverAnimations document s)))"
    if "trigger_key s el \<notin> set registered_kinds"
    using that by (auto simp: initIntersectionObserverAnimations_def trigger_key_def Let_def)
  from 1 2 3 show ?thesis by blast
qed

text \<open>Element 8 of \<open>example_session\<close>, on a host that inherits \<^verbatim>\<open>valueOf\<close> only.\<close>

theorem unknown_kind_is_ignored_witness:
  "animationMap example_handlers example_inherited (trigger_key example_session 8) = NoProperty
   \<and> observer_entry example_handlers example_inherited 0 \<lparr> target = 8, isIntersecting = True \<rparr>
        example_session = (example_session, None)
   \<and> observer_callback example_handlers example_inherited 0
        [\<lparr> target = 8, isIntersecting = True \<rparr>, \<lparr> target = 8, isIntersecting = True \<rparr>]
        example_session = (example_session, None)
   \<and> trigger_key example_session 8 \<notin> set registered_kinds
   \<and> 8 \<notin> set (last (io_targets (initIntersectionObserverAnimations [7, 8, 9] example_session)))"
proof -
  let ?e = "\<lparr> target = 8, isIntersecting = True \<rparr>"
  have k: "trigger_key example_session 8 = ''carousel''"
    by (simp add: example_session_def trigger_key_def)
  have r: "trigger_key example_session 8 \<notin> set registered_kinds"
    unfolding k by (simp add: registered_kinds_def)
  have u: "animationMap example_handlers example_inherited (trigger_key example_session 8)
      = NoProperty"
    unfolding k by (simp add: animationMap_def registered_kinds_def example_inherited_def)
  have all: "\<forall>e \<in> set [?e, ?e].
      animationMap example_handlers example_inherited (trigger_key example_session (target e))
        = NoProperty"
    using u by simp
  note t = unknown_kind_is_ignored[where H = example_handlers and inh = example_inherited
      and s = example_session and e = ?e and es = "[?e, ?e]" and obs = 0 and el = 8
      and document = "[7, 8, 9]"]
  from t u have a: "observer_entry example_handlers example_inherited 0 ?e example_session
      = (example_session, None)"
    by simp
  from t all have b: "observer_callback example_handlers example_inherited 0 [?e, ?e]
      example_session = (example_session, None)"
    by blast
  from t r have c:
    "8 \<notin> set (last (io_targets (initIntersectionObserverAnimations [7, 8, 9] example_session)))"
    by blast
  from u r a b c show ?thesis by simp
qed

subsection \<open>Cleanup and diagnostics\<close>

text \<open>Both cleanup functions kill the scroll triggers and then stop at the call of
  \<^verbatim>\<open>clear\<close> on the WeakMap: the TypeError escapes and nothing after it runs.\<close>

lemma cleanup_stops_at_weakmap_clear:
  "snd (cleanup s) = Some (TypeError ''clear is not a function'')
   \<and> fst (cleanup s) = s\<lparr> scrollTriggers := [] \<rparr>
   \<and> snd (cleanupAnimations s) = Some (TypeError ''clear is not a function'')
   \<and> fst (cleanupAnimations s) = s\<lparr> scrollTriggers := [] \<rparr>"
  by (simp add: cleanup_def cleanupAnimations_def weakmap_clear_def kill_all_scrollTriggers_def)

text \<open>
  C3 fails on the code. \<^verbatim>\<open>WebflowAnimations.cleanup()\<close> on \<open>example_session\<close>
  throws: the exception reaches the caller, the timeline and observer caches still hold
  their entries, the observer is still connected to the elements it watches, and the
  animation cache still holds the section's timeline.
\<close>

theorem cleanup_throws_on_example:
  "snd (cleanup example_session) = Some (TypeError ''clear is not a function'')
   \<and> cache_timelines (fst (cleanup example_session)) = [(''menu'', 0)]
   \<and> cache_observers (fst (cleanup example_session)) = [(''main'', 0)]
   \<and> io_targets (fst (cleanup example_session)) = [ [8, 9] ]
   \<and> cache_animations (fst (cleanup example_session)) 7 = Some 1
   \<and> globalTimeline (fst (cleanup example_session)) = [0, 1]
   \<and> snd (cleanupAnimations example_session) = Some (TypeError ''clear is not a function'')"
  by (simp add: cleanup_def cleanupAnimations_def weakmap_clear_def kill_all_scrollTriggers_def
      example_session_def)

text \<open>The timeline and observer counts are the sizes of their Maps; the animation count
  is the \<^verbatim>\<open>size\<close> of a WeakMap, which is \<^verbatim>\<open>undefined\<close>.\<close>

lemma metrics_of_any_session:
  "animationCount (getPerformanceMetrics s) = Undefined
   \<and> timelineCount (getPerformanceMetrics s) = Number (length (cache_timelines s))
   \<and> observerCount (getPerformanceMetrics s) = Number (length (cache_observers s))"
  by (simp add: getPerformanceMetrics_def weakmap_size_def map_size_def)

text \<open>
  C9 fails on the code. On \<open>example_session\<close>, whose animation cache holds one entry,
  \<^verbatim>\<open>getPerformanceMetrics().animationCount\<close> is \<^verbatim>\<open>undefined\<close>, not the
  number 1; the timeline and observer counts are the numbers of entries of their caches.
\<close>

theorem animationCount_undefined_on_example:
  "cache_animations example_session = [7 \<mapsto> 1]
   \<and> animationCount (getPerformanceMetrics example_session) = Undefined
   \<and> animationCount (getPerformanceMetrics example_session) \<noteq> Number 1
   \<and> timelineCount (getPerformanceMetrics example_session) = Number 1
   \<and> observerCount (getPerformanceMetrics example_session) = Number 1"
  by (simp add: getPerformanceMetrics_def weakmap_size_def map_size_def example_session_def)

end
